theory Spec2Isabelle
  imports Main "HOL-Library.List_Lexorder" "HOL-Library.Char_ord"
begin

section \<open>Strings and characters\<close>

text \<open>
  A Python \<open>str\<close> is modelled as a \<open>string\<close>: a list of 8-bit characters, read as
  the code points U+0000 to U+00FF. On this range \<open>str.isspace\<close>, the regular
  expression classes \<open>\s\<close> and \<open>\d\<close>, and \<open>str.lower\<close> are the tables below;
  \<open>str.lower\<close> maps one character to one character there.
\<close>

definition isspace :: "char \<Rightarrow> bool" where
  "isspace c = (c \<in> set [CHR 0x09, CHR 0x0A, CHR 0x0B, CHR 0x0C, CHR 0x0D,
      CHR 0x1C, CHR 0x1D, CHR 0x1E, CHR 0x1F, CHR '' '', CHR 0x85, CHR 0xA0])"

definition re_digit :: "char \<Rightarrow> bool" where
  "re_digit c = (c \<in> set ''0123456789'')"

definition isupper :: "char \<Rightarrow> bool" where
  "isupper c = (c \<in> set (''ABCDEFGHIJKLMNOPQRSTUVWXYZ'' @
     [CHR 0xC0, CHR 0xC1, CHR 0xC2, CHR 0xC3, CHR 0xC4, CHR 0xC5, CHR 0xC6, CHR 0xC7,
      CHR 0xC8, CHR 0xC9, CHR 0xCA, CHR 0xCB, CHR 0xCC, CHR 0xCD, CHR 0xCE, CHR 0xCF,
      CHR 0xD0, CHR 0xD1, CHR 0xD2, CHR 0xD3, CHR 0xD4, CHR 0xD5, CHR 0xD6,
      CHR 0xD8, CHR 0xD9, CHR 0xDA, CHR 0xDB, CHR 0xDC, CHR 0xDD, CHR 0xDE]))"

text \<open>Lower-casing an upper-case letter of this range adds 0x20, that is, sets bit 5.\<close>

definition lower_char :: "char \<Rightarrow> char" where
  "lower_char c =
     (if isupper c
      then (case c of Char b0 b1 b2 b3 b4 b5 b6 b7 \<Rightarrow> Char b0 b1 b2 b3 b4 True b6 b7)
      else c)"

definition lower :: "string \<Rightarrow> string" where
  "lower s = map lower_char s"

text \<open>\<open>s.startswith(p)\<close> and the substring test \<open>sub in s\<close>.\<close>

fun startswith :: "string \<Rightarrow> string \<Rightarrow> bool" where
  "startswith s [] = True"
| "startswith [] (p # ps) = False"
| "startswith (c # cs) (p # ps) = (c = p \<and> startswith cs ps)"

fun contains :: "string \<Rightarrow> string \<Rightarrow> bool" where
  "contains [] sub = (sub = [])"
| "contains (c # cs) sub = (startswith (c # cs) sub \<or> contains cs sub)"

text \<open>\<open>s.strip()\<close>, and \<open>s.strip(chars)\<close>, \<open>s.rstrip(chars)\<close> for a set of characters.\<close>

definition lstrip :: "string \<Rightarrow> string" where
  "lstrip s = dropWhile isspace s"

definition rstrip :: "string \<Rightarrow> string" where
  "rstrip s = rev (dropWhile isspace (rev s))"

definition strip :: "string \<Rightarrow> string" where
  "strip s = lstrip (rstrip s)"

definition rstrip_chars :: "string \<Rightarrow> string \<Rightarrow> string" where
  "rstrip_chars chars s = rev (dropWhile (\<lambda>c. c \<in> set chars) (rev s))"

definition strip_chars :: "string \<Rightarrow> string \<Rightarrow> string" where
  "strip_chars chars s = dropWhile (\<lambda>c. c \<in> set chars) (rstrip_chars chars s)"

text \<open>
  \<open>s.replace(old, "", 1)\<close>: the first occurrence of \<open>old\<close> removed;
  \<open>s.partition(sep)[0]\<close>: the text before the first occurrence of \<open>sep\<close>, all of
  \<open>s\<close> when there is none.
\<close>

fun remove_first :: "string \<Rightarrow> string \<Rightarrow> string" where
  "remove_first old [] = []"
| "remove_first old (c # cs) =
     (if startswith (c # cs) old then drop (length old) (c # cs)
      else c # remove_first old cs)"

fun partition_head :: "string \<Rightarrow> string \<Rightarrow> string" where
  "partition_head sep [] = []"
| "partition_head sep (c # cs) =
     (if startswith (c # cs) sep then [] else c # partition_head sep cs)"

text \<open>
  \<open>s.split(sep)\<close> and \<open>s.split(sep, 1)\<close> for a one-character separator. Both return
  at least one piece, so the source's \<open>[0]\<close> and \<open>[-1]\<close> on the result are \<open>hd\<close>
  and \<open>last\<close> of a non-empty list.
\<close>

fun split :: "char \<Rightarrow> string \<Rightarrow> string list" where
  "split sep [] = [[]]"
| "split sep (c # cs) =
     (if c = sep then [] # split sep cs
      else (case split sep cs of [] \<Rightarrow> [[c]] | w # ws \<Rightarrow> (c # w) # ws))"

definition split1 :: "char \<Rightarrow> string \<Rightarrow> string list" where
  "split1 sep s =
     (if sep \<in> set s
      then [takeWhile (\<lambda>c. c \<noteq> sep) s, tl (dropWhile (\<lambda>c. c \<noteq> sep) s)]
      else [s])"

text \<open>\<open>sep.join(xs)\<close>.\<close>

fun join :: "string \<Rightarrow> string list \<Rightarrow> string" where
  "join sep [] = []"
| "join sep [x] = x"
| "join sep (x # y # ys) = x @ sep @ join sep (y # ys)"

section \<open>Errors and integers\<close>

text \<open>
  The exceptions that the modelled code and the libraries it calls can raise.
  \<open>ParserError\<close> stands for whatever the external date parser raises,
  \<open>OtherError name\<close> for an exception of a class that is not listed, given by the
  name of the class, and \<open>FieldNotModelled\<close> for a replacement field of \<open>str.format\<close>
  outside the part of the format language modelled below.
\<close>

datatype error =
    ValueError
  | OverflowError
  | KeyError
  | IndexError
  | ParserError
  | RuntimeError
  | OtherError string
  | FieldNotModelled

definition digit_val :: "char \<Rightarrow> int" where
  "digit_val c = int (length (takeWhile (\<lambda>d. d \<noteq> c) ''0123456789''))"

definition digits_value :: "string \<Rightarrow> int" where
  "digits_value ds = foldl (\<lambda>a c. 10 * a + digit_val c) 0 ds"

text \<open>
  \<open>int(s)\<close> in base ten: surrounding whitespace is ignored, one sign is allowed, and
  single underscores may separate digits; anything else is a \<open>ValueError\<close>. Integers
  are unbounded, but the interpreter refuses to convert a string with more than
  \<open>sys.int_max_str_digits\<close> digit characters, leading zeros included and underscores
  not counted; the default of that limit is 4300, and exceeding it is a \<open>ValueError\<close>
  too.
\<close>

definition int_max_str_digits :: nat where
  "int_max_str_digits = 4300"

definition py_int :: "string \<Rightarrow> error + int" where
  "py_int s =
     (let t = strip s;
          signed = (t \<noteq> [] \<and> (hd t = CHR ''+'' \<or> hd t = CHR ''-''));
          body = (if signed then tl t else t)
      in if body \<noteq> [] \<and> re_digit (hd body) \<and> re_digit (last body)
            \<and> list_all (\<lambda>c. re_digit c \<or> c = CHR ''_'') body
            \<and> \<not> contains body ''__''
         then (if int_max_str_digits < length (filter (\<lambda>c. c \<noteq> CHR ''_'') body)
               then Inl ValueError
               else Inr ((if signed \<and> hd t = CHR ''-'' then - 1 else 1)
                         * digits_value (filter (\<lambda>c. c \<noteq> CHR ''_'') body)))
         else Inl ValueError)"

text \<open>\<open>str(n)\<close> for an integer.\<close>

definition digit_char :: "nat \<Rightarrow> char" where
  "digit_char d = ''0123456789'' ! d"

fun nat_digits :: "nat \<Rightarrow> string" where
  "nat_digits n =
     (if n < 10 then [digit_char n] else nat_digits (n div 10) @ [digit_char (n mod 10)])"

declare nat_digits.simps [simp del]

definition str_int :: "int \<Rightarrow> string" where
  "str_int i = (if i < 0 then CHR ''-'' # nat_digits (nat (- i)) else nat_digits (nat i))"

section \<open>Text normalizers (\<open>utils_text.py\<close>)\<close>

subsection \<open>\<open>clean_text\<close>\<close>

text \<open>
  \<open>_WHITESPACE_RE.sub(" ", s)\<close> with the pattern \<open>\s+\<close>: scanning from the left,
  every maximal run of whitespace is replaced by one space.
\<close>

function sub_ws :: "string \<Rightarrow> string" where
  "sub_ws [] = []"
| "sub_ws (c # cs) =
     (if isspace c then CHR '' '' # sub_ws (dropWhile isspace cs) else c # sub_ws cs)"
  by pat_completeness auto
termination
  by (relation "measure length") (auto simp: less_Suc_eq_le length_dropWhile_le)

text \<open>The argument is \<open>None\<close> or a string; \<open>None\<close> gives the empty string.\<close>

definition clean_text :: "string option \<Rightarrow> string" where
  "clean_text text = (case text of None \<Rightarrow> [] | Some t \<Rightarrow> strip (sub_ws t))"

text \<open>
  Properties of strings used to describe the results of \<open>clean_text\<close>:
  \<open>single_spaced\<close>: every whitespace character is the space character and is not
  followed by whitespace; \<open>no_edge_ws\<close>: no whitespace at either end;
  \<open>no_ws_run\<close>: no two adjacent whitespace characters.
\<close>

fun single_spaced :: "string \<Rightarrow> bool" where
  "single_spaced [] = True"
| "single_spaced [c] = (isspace c \<longrightarrow> c = CHR '' '')"
| "single_spaced (c # d # cs) =
     ((isspace c \<longrightarrow> c = CHR '' '' \<and> \<not> isspace d) \<and> single_spaced (d # cs))"

definition no_edge_ws :: "string \<Rightarrow> bool" where
  "no_edge_ws s = (s = [] \<or> (\<not> isspace (hd s) \<and> \<not> isspace (last s)))"

fun no_ws_run :: "string \<Rightarrow> bool" where
  "no_ws_run (c # d # cs) = (\<not> (isspace c \<and> isspace d) \<and> no_ws_run (d # cs))"
| "no_ws_run cs = True"

subsection \<open>\<open>parse_created_at\<close>\<close>

text \<open>
  A \<open>datetime\<close> is its count of microseconds since 0001-01-01T00:00:00 on its own
  clock face, with an optional time zone; a \<open>timedelta\<close> is a count of
  microseconds. The representable datetimes end with year 9999, and a timedelta
  holds at most 999999999 days in magnitude; going beyond either raises
  \<open>OverflowError\<close>.
\<close>

datatype tz = UTC | FixedOffset int

record datetime =
  micros :: int
  tzinfo :: "tz option"

definition us_per_minute :: int where "us_per_minute = 60 * 1000000"
definition us_per_hour :: int where "us_per_hour = 3600 * 1000000"
definition us_per_day :: int where "us_per_day = 86400 * 1000000"
definition us_per_week :: int where "us_per_week = 7 * (86400 * 1000000)"

definition max_micros :: int where
  "max_micros = 3652059 * (86400 * 1000000)"

definition timedelta :: "int \<Rightarrow> error + int" where
  "timedelta us =
     (if us div us_per_day > 999999999 \<or> us div us_per_day < - 999999999
      then Inl OverflowError else Inr us)"

definition datetime_sub :: "datetime \<Rightarrow> int \<Rightarrow> error + datetime" where
  "datetime_sub d delta =
     (let m = micros d - delta
      in if m < 0 \<or> max_micros \<le> m then Inl OverflowError else Inr (d\<lparr>micros := m\<rparr>))"

text \<open>
  \<open>re.match\<close> of
  \<open>(\d+)\s+(minute|minutes|hour|hours|day|days|week|weeks)\s+ago\<close>
  at the start of the text; the result is the two groups. The digits and each
  whitespace run are matched greedily, and giving characters back never helps: after
  fewer digits the next character is a digit, not whitespace, and after fewer
  whitespace characters the next one is whitespace, not a letter. The unit
  alternatives are tried in the order written, and an alternative counts only when
  the rest of the pattern matches after it.
\<close>

definition ws_then :: "string \<Rightarrow> string \<Rightarrow> bool" where
  "ws_then lit s = (s \<noteq> [] \<and> isspace (hd s) \<and> startswith (dropWhile isspace s) lit)"

definition units :: "string list" where
  "units = [''minute'', ''minutes'', ''hour'', ''hours'', ''day'', ''days'', ''week'', ''weeks'']"

definition re_match_relative :: "string \<Rightarrow> (string \<times> string) option" where
  "re_match_relative s =
     (let g1 = takeWhile re_digit s;
          r1 = dropWhile re_digit s;
          r2 = dropWhile isspace r1
      in if g1 = [] \<or> r1 = [] \<or> \<not> isspace (hd r1) then None
         else (case find (\<lambda>u. startswith r2 u \<and> ws_then ''ago'' (drop (length u) r2)) units of
                 None \<Rightarrow> None
               | Some u \<Rightarrow> Some (g1, u)))"

text \<open>The \<open>if\<close>/\<open>elif\<close> chain that turns the unit and the value into a timedelta.\<close>

definition delta_micros :: "string \<Rightarrow> int \<Rightarrow> int" where
  "delta_micros unit v =
     (if contains unit ''minute'' then v * us_per_minute
      else if contains unit ''hour'' then v * us_per_hour
      else if contains unit ''day'' then v * us_per_day
      else if contains unit ''week'' then v * us_per_week
      else 0)"

text \<open>The step that strips a leading \<open>posted\<close>; \<open>text_clean\<close> is already lower-cased.\<close>

definition strip_posted :: "string \<Rightarrow> string" where
  "strip_posted text_clean =
     (if startswith text_clean ''posted''
      then strip_chars '' ,-'' (remove_first ''posted'' text_clean)
      else text_clean)"

text \<open>
  The length in microseconds of the eight unit words, as the specification reads
  them; used to state what \<open>delta_micros\<close> computes.
\<close>

definition unit_micros :: "string \<Rightarrow> int" where
  "unit_micros u =
     (if u = ''minute'' \<or> u = ''minutes'' then 60000000
      else if u = ''hour'' \<or> u = ''hours'' then 3600000000
      else if u = ''day'' \<or> u = ''days'' then 86400000000
      else if u = ''week'' \<or> u = ''weeks'' then 604800000000
      else 0)"

text \<open>
  \<open>parse_created_at\<close>. Three things come from outside the repository and are
  parameters: \<open>isoformat\<close> (\<open>datetime.isoformat\<close>), \<open>date_parse\<close>
  (\<open>dateutil.parser.parse\<close>, which returns a datetime or raises) and \<open>now\<close>
  (the reading of \<open>datetime.now(timezone.utc)\<close> in this call).
\<close>

definition parse_created_at ::
  "(datetime \<Rightarrow> string) \<Rightarrow> (string \<Rightarrow> error + datetime) \<Rightarrow> datetime
     \<Rightarrow> string option \<Rightarrow> error + string" where
  "parse_created_at isoformat date_parse now text =
     (let text_clean = lower (clean_text text)
      in if text_clean = [] then Inr []
         else
           let text_clean = strip_posted text_clean
           in case re_match_relative text_clean of
                Some (g1, unit) \<Rightarrow>
                  (case py_int g1 of
                     Inl e \<Rightarrow> Inl e
                   | Inr v \<Rightarrow>
                       (case timedelta (delta_micros unit v) of
                          Inl e \<Rightarrow> Inl e
                        | Inr delta \<Rightarrow>
                            (case datetime_sub now delta of
                               Inl e \<Rightarrow> Inl e
                             | Inr created \<Rightarrow> Inr (isoformat created))))
              | None \<Rightarrow>
                  if text_clean \<in> {''yesterday''}
                  then (case timedelta (1 * us_per_day) of
                          Inl e \<Rightarrow> Inl e
                        | Inr delta \<Rightarrow>
                            (case datetime_sub now delta of
                               Inl e \<Rightarrow> Inl e
                             | Inr created \<Rightarrow> Inr (isoformat created)))
                  else (case date_parse text_clean of
                          Inr dt \<Rightarrow>
                            Inr (isoformat
                                  (if tzinfo dt = None then dt\<lparr>tzinfo := Some UTC\<rparr> else dt))
                        | Inl e \<Rightarrow> Inr (clean_text text)))"

subsection \<open>\<open>parse_budget\<close>, \<open>parse_client_spent\<close>, \<open>parse_job_type\<close>\<close>

definition parse_budget :: "string option \<Rightarrow> string" where
  "parse_budget text = clean_text text"

definition parse_client_spent :: "string option \<Rightarrow> string" where
  "parse_client_spent text = clean_text text"

definition parse_job_type :: "string option \<Rightarrow> string" where
  "parse_job_type text =
     (let text_clean = lower (clean_text text)
      in if contains text_clean ''hourly'' then ''Hourly''
         else if contains text_clean ''fixed-price'' \<or> contains text_clean ''fixed price''
                 \<or> contains text_clean ''fixed-price''
         then ''Fixed''
         else [])"

subsection \<open>\<open>parse_client_reviews\<close>\<close>

text \<open>
  \<open>re.search\<close> of \<open>(\d+)\s+reviews\<close>: the pattern is tried at each position
  from the left, and the first position where it matches gives group 1. At one
  position the match is the greedy one, for the reason given above.
\<close>

definition match_reviews_at :: "string \<Rightarrow> string option" where
  "match_reviews_at s =
     (let g1 = takeWhile re_digit s
      in if g1 \<noteq> [] \<and> ws_then ''reviews'' (dropWhile re_digit s) then Some g1 else None)"

fun re_search_reviews :: "string \<Rightarrow> string option" where
  "re_search_reviews [] = None"
| "re_search_reviews (c # cs) =
     (case match_reviews_at (c # cs) of
        Some g1 \<Rightarrow> Some g1
      | None \<Rightarrow> re_search_reviews cs)"

text \<open>\<open>re.findall\<close> of \<open>\d+\<close>: the maximal runs of digits, left to right.\<close>

function digit_runs :: "string \<Rightarrow> string list" where
  "digit_runs [] = []"
| "digit_runs (c # cs) =
     (if re_digit c then (c # takeWhile re_digit cs) # digit_runs (dropWhile re_digit cs)
      else digit_runs cs)"
  by pat_completeness auto
termination
  by (relation "measure length") (auto simp: less_Suc_eq_le length_dropWhile_le)

text \<open>
  \<open>str.isdigit\<close>: non-empty and made of digit characters; on this range these are
  the ten decimal digits and the superscripts one, two and three.
\<close>

definition str_isdigit :: "string \<Rightarrow> bool" where
  "str_isdigit s =
     (s \<noteq> [] \<and> list_all (\<lambda>c. re_digit c \<or> c \<in> set [CHR 0xB2, CHR 0xB3, CHR 0xB9]) s)"

text \<open>The list comprehension \<open>[int(n) for n in ... if n.isdigit()]\<close>; the first
  failing conversion raises.\<close>

fun int_all :: "string list \<Rightarrow> error + int list" where
  "int_all [] = Inr []"
| "int_all (n # ns) =
     (if str_isdigit n
      then (case py_int n of
              Inl e \<Rightarrow> Inl e
            | Inr v \<Rightarrow> (case int_all ns of Inl e \<Rightarrow> Inl e | Inr vs \<Rightarrow> Inr (v # vs)))
      else int_all ns)"

fun first_reasonable :: "int list \<Rightarrow> int" where
  "first_reasonable [] = 0"
| "first_reasonable (n # ns) = (if 0 < n \<and> n < 10000 then n else first_reasonable ns)"

definition reviews_fallback :: "string \<Rightarrow> error + int" where
  "reviews_fallback text_clean =
     (case int_all (digit_runs text_clean) of
        Inl e \<Rightarrow> Inl e
      | Inr numbers \<Rightarrow> Inr (first_reasonable numbers))"

definition parse_client_reviews :: "string option \<Rightarrow> error + int" where
  "parse_client_reviews text =
     (let text_clean = lower (clean_text text)
      in case re_search_reviews text_clean of
           Some g1 \<Rightarrow>
             (case py_int g1 of
                Inr v \<Rightarrow> Inr v
              | Inl e \<Rightarrow> if e = ValueError then reviews_fallback text_clean else Inl e)
         | None \<Rightarrow> reviews_fallback text_clean)"

subsection \<open>\<open>parse_skills_list\<close>\<close>

text \<open>The loop, with its two variables \<open>cleaned\<close> and \<open>seen\<close>.\<close>

fun skills_loop :: "string list \<Rightarrow> string list \<Rightarrow> string set \<Rightarrow> string list" where
  "skills_loop [] cleaned seen = cleaned"
| "skills_loop (raw # raws) cleaned seen =
     (let skill = clean_text (Some raw)
      in if skill = [] then skills_loop raws cleaned seen
         else let key = lower skill
              in if key \<in> seen then skills_loop raws cleaned seen
                 else skills_loop raws (cleaned @ [skill]) (insert key seen))"

definition parse_skills_list :: "string list \<Rightarrow> string list" where
  "parse_skills_list skills_raw = skills_loop skills_raw [] {}"

text \<open>
  For the statement about \<open>parse_skills_list\<close>, in the words of the
  specification. The words of a text are its maximal runs of characters that are
  not whitespace; an entry cleaned of surrounding and duplicate whitespace is its
  words separated by single spaces. \<open>first_occurrences key xs\<close> keeps the elements
  of \<open>xs\<close> whose key has not occurred at an earlier position, in their original
  order.
\<close>

function ws_words :: "string \<Rightarrow> string list" where
  "ws_words [] = []"
| "ws_words (c # cs) =
     (if isspace c then ws_words cs
      else (c # takeWhile (\<lambda>x. \<not> isspace x) cs)
           # ws_words (dropWhile (\<lambda>x. \<not> isspace x) cs))"
  by pat_completeness auto
termination
  by (relation "measure length") (auto simp: less_Suc_eq_le length_dropWhile_le)

definition spaced_words :: "string \<Rightarrow> string" where
  "spaced_words raw = join '' '' (ws_words raw)"

definition first_occurrences :: "('a \<Rightarrow> 'b) \<Rightarrow> 'a list \<Rightarrow> 'a list" where
  "first_occurrences key xs =
     map (\<lambda>i. xs ! i)
       (filter (\<lambda>i. key (xs ! i) \<notin> key ` set (take i xs)) [0..<length xs])"

text \<open>The entries as the loop sees them: cleaned by \<open>clean_text\<close>, empty ones skipped.\<close>

definition cleaned_entries :: "string list \<Rightarrow> string list" where
  "cleaned_entries raws = filter (\<lambda>s. s \<noteq> []) (map (\<lambda>raw. clean_text (Some raw)) raws)"

text \<open>
  The pattern \<open>(\d+)\s+reviews\<close> read as a description: it matches in \<open>t\<close> at
  position \<open>i\<close> with group \<open>ds\<close> when the text from \<open>i\<close> on is \<open>ds\<close>, one or more
  digits, then one or more whitespace characters, then \<open>reviews\<close>.
\<close>

definition reviews_match_at :: "string \<Rightarrow> nat \<Rightarrow> string \<Rightarrow> bool" where
  "reviews_match_at t i ds =
     (\<exists>ws rest. i \<le> length t \<and> drop i t = ds @ ws @ ''reviews'' @ rest
        \<and> ds \<noteq> [] \<and> list_all re_digit ds \<and> ws \<noteq> [] \<and> list_all isspace ws)"

text \<open>
  The same selection written as a recursion that carries the set of keys seen so
  far; used to relate the loop to \<open>first_occurrences\<close>.
\<close>

fun dedup_seen :: "('a \<Rightarrow> 'b) \<Rightarrow> 'b set \<Rightarrow> 'a list \<Rightarrow> 'a list" where
  "dedup_seen key seen [] = []"
| "dedup_seen key seen (x # xs) =
     (if key x \<in> seen then dedup_seen key seen xs
      else x # dedup_seen key (insert (key x) seen) xs)"

text \<open>
  Stand-ins for the three outside parameters, used where a statement is evaluated at
  a concrete input: a formatter that prints the microsecond count, a date parser
  that recognizes nothing, and the clock reading 2026-11-04T00:00:00 UTC.
\<close>

definition iso_example :: "datetime \<Rightarrow> string" where
  "iso_example d = str_int (micros d)"

definition no_date_parse :: "string \<Rightarrow> error + datetime" where
  "no_date_parse s = Inl ParserError"

definition now_example :: datetime where
  "now_example = \<lparr>micros = 63929347200000000, tzinfo = Some UTC\<rparr>"

section \<open>The scraper (\<open>upwork_parser.py\<close>)\<close>

subsection \<open>\<open>_build_url\<close>\<close>

text \<open>
  \<open>template.format(page=page)\<close>, read from left to right as \<open>str.format\<close> does:
  \<open>{{\<close> and \<open>}}\<close> are literal braces, a single \<open>}\<close> is a \<open>ValueError\<close>, and a
  \<open>{\<close> opens a replacement field that runs to the next \<open>}\<close> (\<open>ValueError\<close> when
  there is none). The field \<open>page\<close> is replaced by \<open>str(page)\<close>; an empty or numeric
  field asks for a positional argument and raises \<open>IndexError\<close>, since none is
  passed, unless the number is larger than the largest index of the platform
  (\<open>PY_SSIZE_T_MAX\<close>, here that of a 64-bit build), which is a \<open>ValueError\<close>; any
  other plain name raises \<open>KeyError\<close>. A field with a conversion, a format
  specification, an attribute or index access, or a nested brace is outside this
  model and is marked \<open>FieldNotModelled\<close>: no statement below depends on such a
  template. The first failure from the left is the result.
\<close>

definition ssize_t_max :: int where
  "ssize_t_max = 9223372036854775807"

function format_page :: "string \<Rightarrow> int \<Rightarrow> error + string" where
  "format_page [] page = Inr []"
| "format_page (c # cs) page =
     (if c = CHR ''{'' then
        (if cs \<noteq> [] \<and> hd cs = CHR ''{''
         then (case format_page (tl cs) page of
                 Inl e \<Rightarrow> Inl e
               | Inr r \<Rightarrow> Inr (CHR ''{'' # r))
         else if CHR ''}'' \<notin> set cs then Inl ValueError
         else
           let field = takeWhile (\<lambda>x. x \<noteq> CHR ''}'') cs;
               rest = tl (dropWhile (\<lambda>x. x \<noteq> CHR ''}'') cs)
           in if field = ''page''
              then (case format_page rest page of
                      Inl e \<Rightarrow> Inl e
                    | Inr r \<Rightarrow> Inr (str_int page @ r))
              else if \<exists>x \<in> set field. x \<in> set ''{.[!:'' then Inl FieldNotModelled
              else if list_all re_digit field
              then (if ssize_t_max < digits_value field then Inl ValueError
                    else Inl IndexError)
              else Inl KeyError)
      else if c = CHR ''}'' then
        (if cs \<noteq> [] \<and> hd cs = CHR ''}''
         then (case format_page (tl cs) page of
                 Inl e \<Rightarrow> Inl e
               | Inr r \<Rightarrow> Inr (CHR ''}'' # r))
         else Inl ValueError)
      else (case format_page cs page of
              Inl e \<Rightarrow> Inl e
            | Inr r \<Rightarrow> Inr (c # r)))"
  by pat_completeness auto
termination
proof (relation "measure (\<lambda>(s, page). length s)")
  fix c :: char and cs :: string and x xa
  assume "xa = tl (dropWhile (\<lambda>x. x \<noteq> CHR ''}'') cs)"
  moreover have "length (tl (dropWhile (\<lambda>x. x \<noteq> CHR ''}'') cs)) \<le> length cs"
    using length_dropWhile_le [of "\<lambda>x. x \<noteq> CHR ''}''" cs] by simp
  ultimately show "((xa, page), c # cs, page) \<in> measure (\<lambda>(s, page). length s)" for page :: int
    by simp
qed auto

text \<open>
  The method \<open>_build_url\<close>, with the template of the scraper as an argument.
  \<open>str_format template page\<close> stands for \<open>template.format(page=page)\<close>, so that
  the method can be read with any behaviour of \<open>str.format\<close>; \<open>build_url\<close> is the
  method with \<open>format_page\<close> in that place.
\<close>

definition build_url_with ::
  "(string \<Rightarrow> int \<Rightarrow> error + string) \<Rightarrow> string \<Rightarrow> int \<Rightarrow> error + string" where
  "build_url_with str_format search_url_template page =
     (if contains search_url_template ''{page}''
      then str_format search_url_template page
      else if contains search_url_template ''?''
      then (if contains search_url_template ''page=''
            then Inr (partition_head ''page='' search_url_template @ ''page='' @ str_int page)
            else Inr (search_url_template @ ''&page='' @ str_int page))
      else Inr (search_url_template @ ''?page='' @ str_int page))"

definition build_url :: "string \<Rightarrow> int \<Rightarrow> error + string" where
  "build_url search_url_template page = build_url_with format_page search_url_template page"

text \<open>
  For the statement about \<open>_build_url\<close>: the template with every \<open>{page}\<close>
  replaced by a text \<open>n\<close>, and the templates in which every brace belongs to an
  occurrence of \<open>{page}\<close>.
\<close>

function subst_page :: "string \<Rightarrow> string \<Rightarrow> string" where
  "subst_page n [] = []"
| "subst_page n (c # cs) =
     (if startswith (c # cs) ''{page}'' then n @ subst_page n (drop 5 cs)
      else c # subst_page n cs)"
  by pat_completeness auto
termination
  by (relation "measure (\<lambda>(n, s). length s)") auto

function only_page_fields :: "string \<Rightarrow> bool" where
  "only_page_fields [] = True"
| "only_page_fields (c # cs) =
     (if startswith (c # cs) ''{page}'' then only_page_fields (drop 5 cs)
      else c \<noteq> CHR ''{'' \<and> c \<noteq> CHR ''}'' \<and> only_page_fields cs)"
  by pat_completeness auto
termination
  by (relation "measure length") auto

text \<open>
  The page URL in the words of the specification: the placeholder substituted; or,
  with a query string, the \<open>page=\<close> parameter among the \<open>&\<close>-separated parameters
  replaced, or \<open>&page=<n>\<close> appended when there is no such parameter; or
  \<open>?page=<n>\<close> appended.
\<close>

definition spec_build_url :: "string \<Rightarrow> int \<Rightarrow> string" where
  "spec_build_url template n =
     (if contains template ''{page}'' then subst_page (str_int n) template
      else if CHR ''?'' \<in> set template
      then (let path = takeWhile (\<lambda>c. c \<noteq> CHR ''?'') template;
                query = tl (dropWhile (\<lambda>c. c \<noteq> CHR ''?'') template);
                params = split (CHR ''&'') query
            in if \<exists>p \<in> set params. startswith p ''page=''
               then path @ ''?'' @
                    join ''&'' (map (\<lambda>p. if startswith p ''page='' then ''page='' @ str_int n else p)
                                    params)
               else template @ ''&page='' @ str_int n)
      else template @ ''?page='' @ str_int n)"

subsection \<open>Cards and records\<close>

text \<open>
  The markup library is outside the repository. An element is what the code reads
  from it: its text (\<open>get_text()\<close>), its text with \<open>strip=True\<close>, and its
  attributes. A card is the answers to the queries the code makes on it: \<open>get\<close> of
  an attribute, \<open>select_one\<close> and \<open>select\<close> of a selector, and the visible text
  \<open>get_text(" ", strip=True)\<close>.
\<close>

record element =
  el_get_text :: string
  el_get_text_strip :: string
  el_attrs :: "(string \<times> string) list"

record card =
  card_get :: "string \<Rightarrow> string option"
  card_select_one :: "string \<Rightarrow> element option"
  card_select :: "string \<Rightarrow> element list"
  card_get_text :: string

text \<open>The dictionary built at the end of \<open>_parse_single_job\<close>, with its thirteen keys.\<close>

record job =
  jobId :: string
  title :: string
  description :: string
  createdAt :: string
  jobType :: string
  duration :: string
  budget :: string
  clientLocation :: string
  clientPaymentVerification :: bool
  clientSpent :: string
  clientReviews :: int
  category :: string
  skills :: "string list"

subsection \<open>\<open>_parse_single_job\<close>\<close>

text \<open>Truth value of an attribute value: \<open>None\<close> and the empty string are false.\<close>

definition truthy :: "string option \<Rightarrow> bool" where
  "truthy v = (case v of None \<Rightarrow> False | Some s \<Rightarrow> s \<noteq> [])"

text \<open>The loop over the three id attributes; it leaves the last value read in \<open>job_id\<close>.\<close>

fun attr_loop :: "card \<Rightarrow> string list \<Rightarrow> string option \<Rightarrow> string option" where
  "attr_loop c [] job_id = job_id"
| "attr_loop c (attr # rest) job_id =
     (let job_id = card_get c attr
      in if truthy job_id then job_id else attr_loop c rest job_id)"

definition href_job_id :: "string \<Rightarrow> string" where
  "href_job_id href =
     (if contains href ''~''
      then hd (split (CHR ''?'') (hd (split1 (CHR ''/'') (last (split1 (CHR ''~'') href)))))
      else hd (split (CHR ''?'') (last (split (CHR ''/'') (rstrip_chars ''/'' href)))))"

definition resolve_job_id :: "card \<Rightarrow> string option" where
  \<open>resolve_job_id c =
     (let job_id = attr_loop c [''data-job-id'', ''data-ev-job-id'', ''data-test-job-id''] None
      in if \<not> truthy job_id
         then (case card_select_one c ''a[href*="/jobs/"], a[href*="/job/"]'' of
                 None \<Rightarrow> job_id
               | Some link \<Rightarrow>
                   (case map_of (el_attrs link) ''href'' of
                      None \<Rightarrow> job_id
                    | Some href \<Rightarrow> Some (href_job_id href)))
         else job_id)\<close>

text \<open>The recurring \<open>clean_text(el.get_text()) if el else ""\<close>.\<close>

definition clean_el :: "element option \<Rightarrow> string" where
  "clean_el el = (case el of None \<Rightarrow> [] | Some e \<Rightarrow> clean_text (Some (el_get_text e)))"

definition title_of :: "card \<Rightarrow> string" where
  \<open>title_of c = clean_el (card_select_one c ''[data-test="job-title-link"], h4, h3, a'')\<close>

definition description_of :: "card \<Rightarrow> string" where
  \<open>description_of c =
     clean_el (card_select_one c
       ''[data-test="job-description-text"], div[class*="description"], p'')\<close>

fun first_posted :: "element list \<Rightarrow> string" where
  "first_posted [] = []"
| "first_posted (small # rest) =
     (let text = el_get_text_strip small
      in if startswith (lower text) ''posted'' then text else first_posted rest)"

definition created_text_of :: "card \<Rightarrow> string" where
  \<open>created_text_of c =
     (case card_select_one c ''[data-test="job-posted-on"]'' of
        Some created_el \<Rightarrow> el_get_text created_el
      | None \<Rightarrow> first_posted (card_select c ''small, span''))\<close>

text \<open>
  \<open>_parse_single_job\<close>: the record, \<open>None\<close> for a card that is too empty, or the
  exception raised on the way. The normalizers are called in the order of the
  source, so one that raises does so before the emptiness test.
\<close>

definition parse_single_job ::
  "(datetime \<Rightarrow> string) \<Rightarrow> (string \<Rightarrow> error + datetime) \<Rightarrow> datetime \<Rightarrow> card
     \<Rightarrow> error + job option" where
  \<open>parse_single_job isoformat date_parse now c =
     (let job_id = resolve_job_id c;
          title = title_of c;
          description = description_of c;
          created_text = created_text_of c
      in case parse_created_at isoformat date_parse now (Some created_text) of
           Inl e \<Rightarrow> Inl e
         | Inr created_at \<Rightarrow>
             let job_type = parse_job_type (Some (card_get_text c));
                 duration =
                   clean_el (card_select_one c
                     ''[data-test="job-duration"], span:contains("month")'');
                 budget_text =
                   clean_el (card_select_one c
                     (''[data-test="job-budget"], [data-test="job-hourly-rate"], '' @
                      ''span:contains("$"), strong:contains("$")''));
                 budget = parse_budget (Some budget_text);
                 client_location =
                   clean_el (card_select_one c
                     ''[data-test="client-location"], span[aria-label*="location"]'');
                 client_payment_verification =
                   contains (lower (card_get_text c)) ''payment verified'';
                 spent_text = clean_el (card_select_one c ''[data-test="client-spent"]'');
                 client_spent = parse_client_spent (Some spent_text)
             in case parse_client_reviews (Some (card_get_text c)) of
                  Inl e \<Rightarrow> Inl e
                | Inr reviews \<Rightarrow>
                    let category =
                          clean_el (card_select_one c
                            ''[data-test="job-category"], [data-test="job-subcategory"]'');
                        skills =
                          parse_skills_list
                            (map el_get_text
                               (card_select c ''[data-test="skill-chip"], a[class*="skill"]''))
                    in if \<not> (truthy job_id \<or> title \<noteq> [] \<or> description \<noteq> [])
                       then Inr None
                       else Inr (Some
                         \<lparr>jobId = (if truthy job_id then the job_id else []),
                          title = title,
                          description = description,
                          createdAt = created_at,
                          jobType = job_type,
                          duration = duration,
                          budget = budget,
                          clientLocation = client_location,
                          clientPaymentVerification = client_payment_verification,
                          clientSpent = client_spent,
                          clientReviews = reviews,
                          category = category,
                          skills = skills\<rparr>))\<close>

text \<open>The emptiness test of the record extractor, on the three resolved fields.\<close>

definition has_identity :: "card \<Rightarrow> bool" where
  "has_identity c =
     (truthy (resolve_job_id c) \<or> title_of c \<noteq> [] \<or> description_of c \<noteq> [])"

subsection \<open>\<open>parse_jobs_from_html\<close>\<close>

text \<open>
  \<open>soup_select html selector\<close> stands for
  \<open>BeautifulSoup(html, "lxml").select(selector)\<close>. The cascade is returned together
  with the selectors it invoked, in order: \<open>or\<close> evaluates its right operand only
  when the left one is empty.
\<close>

definition select_job_cards ::
  "(string \<Rightarrow> string \<Rightarrow> card list) \<Rightarrow> string \<Rightarrow> string list \<times> card list" where
  \<open>select_job_cards soup_select html =
     (let c1 = soup_select html ''section.air-card''
      in if c1 \<noteq> [] then ([''section.air-card''], c1)
         else
           let c2 = soup_select html ''div[data-test="job-tile"]''
           in if c2 \<noteq> []
              then ([''section.air-card'', ''div[data-test="job-tile"]''], c2)
              else
                let c3 = soup_select html ''section''
                in if c3 \<noteq> []
                   then ([''section.air-card'', ''div[data-test="job-tile"]'', ''section''], c3)
                   else ([''section.air-card'', ''div[data-test="job-tile"]'', ''section'',
                          ''article''],
                         soup_select html ''article''))\<close>

text \<open>
  The loop over the cards, with its \<open>try\<close>/\<open>except Exception\<close>: a card whose
  extraction raises, or returns \<open>None\<close>, adds nothing. \<open>clock i\<close> is the clock
  reading while card number \<open>i\<close> is processed.
\<close>

fun parse_cards ::
  "(datetime \<Rightarrow> string) \<Rightarrow> (string \<Rightarrow> error + datetime) \<Rightarrow> (nat \<Rightarrow> datetime) \<Rightarrow> nat
     \<Rightarrow> card list \<Rightarrow> job list" where
  "parse_cards isoformat date_parse clock i [] = []"
| "parse_cards isoformat date_parse clock i (c # cards) =
     (case parse_single_job isoformat date_parse (clock i) c of
        Inl exc \<Rightarrow> parse_cards isoformat date_parse clock (Suc i) cards
      | Inr None \<Rightarrow> parse_cards isoformat date_parse clock (Suc i) cards
      | Inr (Some job) \<Rightarrow> job # parse_cards isoformat date_parse clock (Suc i) cards)"

text \<open>The result is the list of selectors invoked and the list of records.\<close>

definition parse_jobs_from_html ::
  "(string \<Rightarrow> string \<Rightarrow> card list) \<Rightarrow> (datetime \<Rightarrow> string) \<Rightarrow> (string \<Rightarrow> error + datetime)
     \<Rightarrow> (nat \<Rightarrow> datetime) \<Rightarrow> string \<Rightarrow> string list \<times> job list" where
  "parse_jobs_from_html soup_select isoformat date_parse clock html =
     (if html = [] then ([], [])
      else
        let (invoked, job_cards) = select_job_cards soup_select html
        in (invoked, parse_cards isoformat date_parse clock 0 job_cards))"

subsection \<open>\<open>fetch_search_page\<close> and \<open>scrape\<close>\<close>

text \<open>
  \<open>fetch_search_page\<close> builds the URL, outside its \<open>try\<close>, and then requests it.
  \<open>http_get url\<close> stands for the request: the response text, or \<open>None\<close> when
  \<open>session.get\<close> or \<open>raise_for_status\<close> raises a \<open>RequestException\<close>, which the
  method turns into the empty string. An exception of \<open>_build_url\<close> is not caught.
\<close>

definition fetch_search_page ::
  "(string \<Rightarrow> int \<Rightarrow> error + string) \<Rightarrow> (string \<Rightarrow> string option) \<Rightarrow> string \<Rightarrow> int
     \<Rightarrow> error + string" where
  "fetch_search_page str_format http_get search_url_template page =
     (case build_url_with str_format search_url_template page of
        Inl e \<Rightarrow> Inl e
      | Inr url \<Rightarrow> (case http_get url of None \<Rightarrow> Inr [] | Some text \<Rightarrow> Inr text))"

text \<open>
  The effects of the loop are kept in a log: a fetch of a page that returned, and
  a pause between pages that returned.
\<close>

datatype event = Fetched int | Slept

text \<open>The inner loop: records are appended until the cap is met.\<close>

fun append_up_to :: "int \<Rightarrow> 'a list \<Rightarrow> 'a list \<Rightarrow> 'a list" where
  "append_up_to max_items jobs [] = jobs"
| "append_up_to max_items jobs (j # page_jobs) =
     (let jobs = jobs @ [j]
      in if max_items \<le> int (length jobs) then jobs
         else append_up_to max_items jobs page_jobs)"

text \<open>
  The outer loop over the remaining pages, from a state of log and records.
  \<open>time_sleep delay_seconds\<close> stands for the call \<open>time.sleep(self.delay_seconds)\<close>:
  \<open>None\<close> when the pause returns, or the exception it raises (\<open>time.sleep\<close> raises
  \<open>ValueError\<close> for a negative length or one that is not a number, and
  \<open>OverflowError\<close> for one too large for the clock); the delay is never validated
  before. An exception of the fetch or of the pause leaves the loop and the
  function.
\<close>

fun scrape_pages ::
  "(int \<Rightarrow> error + string) \<Rightarrow> (int \<Rightarrow> string \<Rightarrow> 'a list) \<Rightarrow> ('d \<Rightarrow> error option) \<Rightarrow> 'd
     \<Rightarrow> int \<Rightarrow> int \<Rightarrow> int list \<Rightarrow> event list \<times> 'a list \<Rightarrow> error + event list \<times> 'a list" where
  "scrape_pages fetch parse_page time_sleep delay_seconds max_items max_pages [] (log, jobs)
     = Inr (log, jobs)"
| "scrape_pages fetch parse_page time_sleep delay_seconds max_items max_pages (page # pages)
       (log, jobs) =
     (if max_items \<le> int (length jobs) then Inr (log, jobs)
      else
        case fetch page of
          Inl e \<Rightarrow> Inl e
        | Inr html \<Rightarrow>
            let log = log @ [Fetched page]
            in if html = [] then Inr (log, jobs)
               else
                 let page_jobs = parse_page page html;
                     jobs = append_up_to max_items jobs page_jobs
                 in if page < max_pages \<and> int (length jobs) < max_items
                    then (case time_sleep delay_seconds of
                            Some e \<Rightarrow> Inl e
                          | None \<Rightarrow>
                              scrape_pages fetch parse_page time_sleep delay_seconds
                                max_items max_pages pages (log @ [Slept], jobs))
                    else scrape_pages fetch parse_page time_sleep delay_seconds
                           max_items max_pages pages (log, jobs))"

text \<open>
  \<open>scrape\<close>, over the pages \<open>1..max_pages\<close>; \<open>clock page i\<close> is the clock reading
  while card \<open>i\<close> of that page is processed.
\<close>

definition scrape ::
  "(string \<Rightarrow> int \<Rightarrow> error + string) \<Rightarrow> (string \<Rightarrow> string option) \<Rightarrow> ('d \<Rightarrow> error option)
     \<Rightarrow> string \<Rightarrow> 'd \<Rightarrow> (string \<Rightarrow> string \<Rightarrow> card list)
     \<Rightarrow> (datetime \<Rightarrow> string) \<Rightarrow> (string \<Rightarrow> error + datetime) \<Rightarrow> (int \<Rightarrow> nat \<Rightarrow> datetime)
     \<Rightarrow> int \<Rightarrow> int \<Rightarrow> error + event list \<times> job list" where
  "scrape str_format http_get time_sleep search_url_template delay_seconds soup_select
       isoformat date_parse clock max_items max_pages =
     scrape_pages (fetch_search_page str_format http_get search_url_template)
       (\<lambda>page html. snd (parse_jobs_from_html soup_select isoformat date_parse (clock page) html))
       time_sleep delay_seconds max_items max_pages [1..max_pages] ([], [])"

subsection \<open>Example cards and pages\<close>

text \<open>
  Concrete inputs for the evaluated statements: an element with a given text, a
  card made of an optional title heading and a posted-on element, and a page whose
  cards are found by the first selector of the cascade.
\<close>

definition text_element :: "string \<Rightarrow> element" where
  "text_element t = \<lparr>el_get_text = t, el_get_text_strip = strip t, el_attrs = []\<rparr>"

definition example_card :: "string \<Rightarrow> string \<Rightarrow> card" where
  \<open>example_card ttl posted =
     \<lparr>card_get = (\<lambda>attr. None),
      card_select_one =
        (\<lambda>sel. if sel = ''[data-test="job-title-link"], h4, h3, a'' \<and> ttl \<noteq> []
               then Some (text_element ttl)
               else if sel = ''[data-test="job-posted-on"]'' then Some (text_element posted)
               else None),
      card_select = (\<lambda>sel. []),
      card_get_text = ttl @ '' '' @ posted\<rparr>\<close>

definition example_soup :: "card list \<Rightarrow> string \<Rightarrow> string \<Rightarrow> card list" where
  "example_soup cards html sel = (if sel = ''section.air-card'' then cards else [])"

definition clock_example :: "nat \<Rightarrow> datetime" where
  "clock_example i = now_example"

text \<open>The record that the extractor builds from the card with the title
  \<open>Build a bot\<close> posted three hours before \<open>now_example\<close>.\<close>

definition example_job :: job where
  "example_job =
     \<lparr>jobId = [],
      title = ''Build a bot'',
      description = [],
      createdAt = iso_example \<lparr>micros = 63929336400000000, tzinfo = Some UTC\<rparr>,
      jobType = [],
      duration = [],
      budget = [],
      clientLocation = [],
      clientPaymentVerification = False,
      clientSpent = [],
      clientReviews = 3,
      category = [],
      skills = []\<rparr>"

definition http_example :: "string \<Rightarrow> string option" where
  "http_example url = Some ''<html>''"

text \<open>A pause in whole seconds that, like \<open>time.sleep\<close>, rejects a negative length.\<close>

definition sleep_example :: "int \<Rightarrow> error option" where
  "sleep_example seconds = (if seconds < 0 then Some ValueError else None)"

definition page_clock_example :: "int \<Rightarrow> nat \<Rightarrow> datetime" where
  "page_clock_example page i = now_example"

definition one_job_page :: "int \<Rightarrow> string \<Rightarrow> job list" where
  "one_job_page page html = [example_job]"

section \<open>The exporter (\<open>exporter.py\<close>)\<close>

text \<open>
  A record handed to the exporter is a Python dictionary: here a list of key/value
  pairs in insertion order. Values have the shapes that occur in job records.
  \<open>job_items\<close> is the dictionary that \<open>_parse_single_job\<close> builds.
\<close>

datatype pyvalue = PNone | PStr string | PInt int | PBool bool | PStrList "string list"

type_synonym pydict = "(string \<times> pyvalue) list"

definition job_items :: "job \<Rightarrow> pydict" where
  "job_items j =
     [(''jobId'', PStr (jobId j)),
      (''title'', PStr (title j)),
      (''description'', PStr (description j)),
      (''createdAt'', PStr (createdAt j)),
      (''jobType'', PStr (jobType j)),
      (''duration'', PStr (duration j)),
      (''budget'', PStr (budget j)),
      (''clientLocation'', PStr (clientLocation j)),
      (''clientPaymentVerification'', PBool (clientPaymentVerification j)),
      (''clientSpent'', PStr (clientSpent j)),
      (''clientReviews'', PInt (clientReviews j)),
      (''category'', PStr (category j)),
      (''skills'', PStrList (skills j))]"

text \<open>\<open>item.get(k)\<close>, and \<open>_scalar_or_join\<close>.\<close>

definition dict_get :: "pydict \<Rightarrow> string \<Rightarrow> pyvalue" where
  "dict_get item k = (case map_of item k of None \<Rightarrow> PNone | Some v \<Rightarrow> v)"

fun scalar_or_join :: "pyvalue \<Rightarrow> string" where
  "scalar_or_join PNone = []"
| "scalar_or_join (PStrList vs) = join '', '' vs"
| "scalar_or_join (PStr s) = s"
| "scalar_or_join (PInt i) = str_int i"
| "scalar_or_join (PBool b) = (if b then ''True'' else ''False'')"

subsection \<open>\<open>_collect_fieldnames\<close>\<close>

definition preferred_order :: "string list" where
  "preferred_order =
     [''jobId'', ''title'', ''description'', ''createdAt'', ''jobType'', ''duration'',
      ''budget'', ''clientLocation'', ''clientPaymentVerification'', ''clientSpent'',
      ''clientReviews'', ''category'', ''skills'']"

text \<open>
  The loop over \<open>preferred_order\<close>, with its variables \<open>ordered\<close> and \<open>fields\<close>
  (here \<open>field_set\<close>).
\<close>

fun prefer_loop :: "string list \<Rightarrow> string list \<times> string set \<Rightarrow> string list \<times> string set" where
  "prefer_loop [] (ordered, field_set) = (ordered, field_set)"
| "prefer_loop (field # rest) (ordered, field_set) =
     (if field \<in> field_set then prefer_loop rest (ordered @ [field], field_set - {field})
      else prefer_loop rest (ordered, field_set))"

text \<open>The set of all keys, built by \<open>fields.update(item.keys())\<close> over the records.\<close>

definition all_keys :: "pydict list \<Rightarrow> string set" where
  "all_keys data = fold (\<lambda>item field_set. field_set \<union> set (map fst item)) data {}"

text \<open>\<open>sorted(fields)\<close> orders strings by code point, which is the order of \<open>string\<close>.\<close>

definition collect_fieldnames :: "pydict list \<Rightarrow> string list" where
  "collect_fieldnames data =
     (let (ordered, field_set) = prefer_loop preferred_order ([], all_keys data)
      in ordered @ sorted_list_of_set field_set)"

subsection \<open>\<open>export\<close>\<close>

text \<open>
  What is written is modelled by its content: the records for JSON; the header and
  the rows for CSV; the columns and the cells for Excel; the elements of each job
  for XML. \<open>pandas.DataFrame\<close>, built from a list of dictionaries, takes its columns
  from the keys in order of first appearance and leaves a missing cell empty. A path
  is the directory and the file name given to the path operator. The file system is
  a map from paths to contents; a write updates it. Failures of the file system and
  of the writer libraries are not modelled.
\<close>

datatype path = PathJoin string string

datatype file_content =
    JsonFile "pydict list"
  | CsvFile "string list" "string list list"
  | ExcelFile "string list" "string option list list"
  | XmlFile "(string \<times> string) list list"

type_synonym filesystem = "path \<Rightarrow> file_content option"

definition dataframe_columns :: "(string \<times> string) list list \<Rightarrow> string list" where
  "dataframe_columns flattened = dedup_seen (\<lambda>k. k) {} (concat (map (map fst) flattened))"

definition export_json ::
  "string \<Rightarrow> filesystem \<Rightarrow> pydict list \<Rightarrow> string \<Rightarrow> (error + path) \<times> filesystem" where
  "export_json output_dir fs data file_prefix =
     (let path = PathJoin output_dir (file_prefix @ ''.json'')
      in (Inr path, fs(path \<mapsto> JsonFile data)))"

definition export_csv ::
  "string \<Rightarrow> filesystem \<Rightarrow> pydict list \<Rightarrow> string \<Rightarrow> (error + path) \<times> filesystem" where
  "export_csv output_dir fs data file_prefix =
     (let path = PathJoin output_dir (file_prefix @ ''.csv'');
          fieldnames = collect_fieldnames data;
          rows = map (\<lambda>item. map (\<lambda>k. scalar_or_join (dict_get item k)) fieldnames) data
      in (Inr path, fs(path \<mapsto> CsvFile fieldnames rows)))"

definition export_excel ::
  "string \<Rightarrow> filesystem \<Rightarrow> pydict list \<Rightarrow> string \<Rightarrow> (error + path) \<times> filesystem" where
  "export_excel output_dir fs data file_prefix =
     (let path = PathJoin output_dir (file_prefix @ ''.xlsx'');
          flattened = map (map (\<lambda>(k, v). (k, scalar_or_join v))) data;
          columns = dataframe_columns flattened;
          cells = map (\<lambda>item. map (map_of item) columns) flattened
      in (Inr path, fs(path \<mapsto> ExcelFile columns cells)))"

definition export_xml ::
  "string \<Rightarrow> filesystem \<Rightarrow> pydict list \<Rightarrow> string \<Rightarrow> (error + path) \<times> filesystem" where
  "export_xml output_dir fs data file_prefix =
     (let jobs = map (map (\<lambda>(key, v). (key, scalar_or_join v))) data;
          path = PathJoin output_dir (file_prefix @ ''.xml'')
      in (Inr path, fs(path \<mapsto> XmlFile jobs)))"

text \<open>\<open>export\<close>: the result and the file system afterwards. Both \<open>raise ValueError\<close>
  and the final \<open>raise RuntimeError\<close> are branches.\<close>

definition export ::
  "string \<Rightarrow> filesystem \<Rightarrow> pydict list \<Rightarrow> string \<Rightarrow> string \<Rightarrow> (error + path) \<times> filesystem" where
  "export output_dir fs data fmt file_prefix =
     (if data = [] then (Inl ValueError, fs)
      else
        let fmt_lower = lower fmt
        in if fmt_lower \<notin> {''json'', ''csv'', ''excel'', ''xml''} then (Inl ValueError, fs)
           else if fmt_lower = ''json'' then export_json output_dir fs data file_prefix
           else if fmt_lower = ''csv'' then export_csv output_dir fs data file_prefix
           else if fmt_lower = ''excel'' then export_excel output_dir fs data file_prefix
           else if fmt_lower = ''xml'' then export_xml output_dir fs data file_prefix
           else (Inl RuntimeError, fs))"


section \<open>Properties of \<open>clean_text\<close>\<close>

lemma isspace_space [simp]: "isspace (CHR '' '')"
  by (simp add: isspace_def)

lemma sub_ws_keeps_head:
  "r = [] \<or> \<not> isspace (hd r) \<Longrightarrow> sub_ws r = [] \<or> \<not> isspace (hd (sub_ws r))"
  by (cases r) auto

lemma single_spaced_Cons:
  "single_spaced (c # cs) =
     ((isspace c \<longrightarrow> c = CHR '' '' \<and> (cs = [] \<or> \<not> isspace (hd cs))) \<and> single_spaced cs)"
  by (cases cs) auto

lemma dropWhile_head: "dropWhile P xs = [] \<or> \<not> P (hd (dropWhile P xs))"
  by (metis hd_dropWhile)

lemma single_spaced_sub_ws: "single_spaced (sub_ws s)"
proof (induction s rule: sub_ws.induct)
  case 1
  show ?case by simp
next
  case (2 c cs)
  show ?case
  proof (cases "isspace c")
    case True
    let ?r = "dropWhile isspace cs"
    have "?r = [] \<or> \<not> isspace (hd ?r)" by (rule dropWhile_head)
    then have "sub_ws ?r = [] \<or> \<not> isspace (hd (sub_ws ?r))"
      by (rule sub_ws_keeps_head)
    with True 2 show ?thesis by (simp add: single_spaced_Cons)
  next
    case False
    with 2 show ?thesis by (simp add: single_spaced_Cons)
  qed
qed

lemma sub_ws_fixed: "single_spaced s \<Longrightarrow> sub_ws s = s"
proof (induction s)
  case Nil
  show ?case by simp
next
  case (Cons c cs)
  then have rest: "sub_ws cs = cs" by (simp add: single_spaced_Cons)
  show ?case
  proof (cases "isspace c")
    case True
    with Cons.prems have "c = CHR '' ''" and "cs = [] \<or> \<not> isspace (hd cs)"
      by (simp_all add: single_spaced_Cons)
    then have "dropWhile isspace cs = cs" by (cases cs) auto
    with True rest \<open>c = CHR '' ''\<close> show ?thesis by simp
  next
    case False
    with rest show ?thesis by simp
  qed
qed

lemma single_spaced_append_left: "single_spaced (xs @ ys) \<Longrightarrow> single_spaced xs"
proof (induction xs)
  case Nil
  show ?case by simp
next
  case (Cons c cs)
  then show ?case by (cases cs) (auto simp: single_spaced_Cons)
qed

lemma single_spaced_append_right: "single_spaced (xs @ ys) \<Longrightarrow> single_spaced ys"
  by (induction xs) (auto simp: single_spaced_Cons)

lemma single_spaced_strip: "single_spaced s \<Longrightarrow> single_spaced (strip s)"
proof -
  assume s: "single_spaced s"
  have "s = rstrip s @ rev (takeWhile isspace (rev s))"
    unfolding rstrip_def by (metis rev_append rev_rev_ident takeWhile_dropWhile_id)
  with s have "single_spaced (rstrip s)" by (metis single_spaced_append_left)
  moreover have "rstrip s = takeWhile isspace (rstrip s) @ strip s"
    by (simp add: strip_def lstrip_def)
  ultimately show ?thesis by (metis single_spaced_append_right)
qed

lemma no_edge_ws_strip: "no_edge_ws (strip s)"
proof (cases "strip s = []")
  case True
  then show ?thesis by (simp add: no_edge_ws_def)
next
  case False
  let ?r = "rstrip s"
  from False have r: "?r \<noteq> []" by (auto simp: strip_def lstrip_def)
  have "rev ?r = dropWhile isspace (rev s)" by (simp add: rstrip_def)
  with r have "\<not> isspace (hd (rev ?r))" by (metis hd_dropWhile rev_is_Nil_conv)
  with r have lr: "\<not> isspace (last ?r)" by (simp add: hd_rev)
  have hd: "\<not> isspace (hd (strip s))"
    using False by (simp add: strip_def lstrip_def hd_dropWhile)
  have "last (strip s) = last ?r"
    using False unfolding strip_def lstrip_def
    by (metis last_appendR takeWhile_dropWhile_id)
  with lr hd False show ?thesis by (simp add: no_edge_ws_def)
qed

lemma strip_fixed: "no_edge_ws s \<Longrightarrow> strip s = s"
proof (cases s)
  case Nil
  then show ?thesis by (simp add: strip_def lstrip_def rstrip_def)
next
  case (Cons c cs)
  assume "no_edge_ws s"
  with Cons have h: "\<not> isspace (hd s)" and l: "\<not> isspace (last s)" and ne: "s \<noteq> []"
    by (simp_all add: no_edge_ws_def)
  from l ne have "dropWhile isspace (rev s) = rev s"
    by (cases "rev s") (auto simp: last_rev hd_rev)
  then have "rstrip s = s" by (simp add: rstrip_def)
  moreover from h ne have "dropWhile isspace s = s" by (cases s) auto
  ultimately show ?thesis by (simp add: strip_def lstrip_def)
qed

lemma clean_text_fixed_iff:
  "clean_text (Some s) = s \<longleftrightarrow> no_edge_ws s \<and> single_spaced s"
proof
  assume eq: "clean_text (Some s) = s"
  then have "s = strip (sub_ws s)" by (simp add: clean_text_def)
  then show "no_edge_ws s \<and> single_spaced s"
    by (metis no_edge_ws_strip single_spaced_strip single_spaced_sub_ws)
next
  assume "no_edge_ws s \<and> single_spaced s"
  then show "clean_text (Some s) = s"
    by (simp add: clean_text_def sub_ws_fixed strip_fixed)
qed

lemma clean_text_normal:
  "no_edge_ws (clean_text (Some s)) \<and> single_spaced (clean_text (Some s))"
  by (simp add: clean_text_def no_edge_ws_strip single_spaced_strip single_spaced_sub_ws)

text \<open>
  Claim C10, as stated, at the string \<open>a<TAB>b\<close>: it has no whitespace at either end
  and no run of two whitespace characters, yet \<open>clean_text\<close> changes it (the tab
  becomes a space), so it is not a fixed point.
\<close>

theorem clean_text_tab_not_fixed:
  "no_edge_ws [CHR ''a'', CHR 0x09, CHR ''b'']
   \<and> no_ws_run [CHR ''a'', CHR 0x09, CHR ''b'']
   \<and> clean_text (Some [CHR ''a'', CHR 0x09, CHR ''b'']) = ''a b''
   \<and> clean_text (Some [CHR ''a'', CHR 0x09, CHR ''b'']) \<noteq> [CHR ''a'', CHR 0x09, CHR ''b'']"
  by (simp add: no_edge_ws_def clean_text_def strip_def lstrip_def rstrip_def isspace_def)

text \<open>
  Claim C10, amended: \<open>clean_text\<close> is idempotent, and its fixed points are exactly
  the strings with no whitespace at either end in which every whitespace character
  is a single space character not followed by another whitespace character.
\<close>

theorem clean_text_idempotent_fixed_points:
  "clean_text (Some (clean_text (Some s))) = clean_text (Some s) \<and>
   (clean_text (Some s) = s \<longleftrightarrow> no_edge_ws s \<and> single_spaced s)"
  using clean_text_fixed_iff clean_text_normal by blast

theorem clean_text_idempotent_fixed_points_witness:
  "clean_text (Some (clean_text (Some ''  a   b ''))) = clean_text (Some ''  a   b '')
   \<and> clean_text (Some ''  a   b '') = ''a b''
   \<and> clean_text (Some ''a b'') = ''a b'' \<and> no_edge_ws ''a b'' \<and> single_spaced ''a b''"
  using clean_text_idempotent_fixed_points [of "''  a   b ''"]
    clean_text_idempotent_fixed_points [of "''a b''"]
  by (simp add: no_edge_ws_def isspace_def clean_text_def strip_def lstrip_def rstrip_def)

section \<open>Helper facts on characters and strings\<close>

lemma digit_not_space: "re_digit c \<Longrightarrow> \<not> isspace c"
  by (auto simp: re_digit_def isspace_def)

lemma startswith_iff: "startswith s p \<longleftrightarrow> (\<exists>r. s = p @ r)"
  by (induction s p rule: startswith.induct) auto

lemma startswith_append [simp]: "startswith (p @ r) p"
  by (simp add: startswith_iff)

lemma digit_not_upper: "re_digit c \<Longrightarrow> lower_char c = c"
  by (auto simp: re_digit_def lower_char_def isupper_def)

lemma lower_digits: "list_all re_digit ds \<Longrightarrow> lower ds = ds"
  by (induction ds) (simp_all add: lower_def digit_not_upper)

lemma lower_append: "lower (a @ b) = lower a @ lower b"
  by (simp add: lower_def)

lemma sub_ws_digits: "list_all re_digit ds \<Longrightarrow> sub_ws (ds @ r) = ds @ sub_ws r"
  by (induction ds) (simp_all add: digit_not_space)

lemma dropWhile_space_digits:
  "ds \<noteq> [] \<Longrightarrow> list_all re_digit ds \<Longrightarrow> dropWhile isspace (ds @ r) = ds @ r"
  by (cases ds) (simp_all add: digit_not_space)

lemma takeWhile_digits:
  "list_all re_digit ds \<Longrightarrow> \<not> re_digit c \<Longrightarrow> takeWhile re_digit (ds @ c # r) = ds"
  by (induction ds) simp_all

lemma dropWhile_digits:
  "list_all re_digit ds \<Longrightarrow> \<not> re_digit c \<Longrightarrow> dropWhile re_digit (ds @ c # r) = c # r"
  by (induction ds) simp_all

section \<open>\<open>parse_skills_list\<close>\<close>

lemma skills_loop_dedup:
  "skills_loop raws cleaned seen = cleaned @ dedup_seen lower seen (cleaned_entries raws)"
  by (induction raws arbitrary: cleaned seen) (simp_all add: cleaned_entries_def Let_def)

lemma dedup_seen_indices:
  "dedup_seen key seen xs =
     map (\<lambda>i. xs ! i)
       (filter (\<lambda>i. key (xs ! i) \<notin> seen \<union> key ` set (take i xs)) [0..<length xs])"
proof (induction xs arbitrary: seen)
  case Nil
  show ?case by simp
next
  case (Cons x xs)
  have "[0..<Suc (length xs)] = 0 # [Suc 0..<Suc (length xs)]"
    by (rule upt_conv_Cons) simp
  then have upt: "[0..<length (x # xs)] = 0 # map Suc [0..<length xs]"
    by (simp only: map_Suc_upt list.size(4) One_nat_def add_Suc_right add_0_right)
  show ?case
  proof (cases "key x \<in> seen")
    case True
    then have same: "\<And>y Q. (y \<notin> seen \<and> y \<noteq> key x \<and> Q) = (y \<notin> seen \<and> Q)"
      by auto
    from True show ?thesis
      unfolding upt by (simp add: filter_map o_def Cons.IH same)
  next
    case False
    then show ?thesis
      unfolding upt by (simp add: filter_map o_def Cons.IH conj_ac)
  qed
qed

lemma first_occurrences_dedup: "first_occurrences key xs = dedup_seen key {} xs"
  by (simp add: first_occurrences_def dedup_seen_indices)

lemma dedup_seen_subset: "set (dedup_seen key seen xs) \<subseteq> set xs"
  by (induction xs arbitrary: seen) auto

lemma dedup_seen_keys: "key ` set (dedup_seen key seen xs) \<inter> seen = {}"
  by (induction xs arbitrary: seen) auto

lemma dedup_seen_distinct: "distinct (map key (dedup_seen key seen xs))"
proof (induction xs arbitrary: seen)
  case Nil
  show ?case by simp
next
  case (Cons x xs)
  have "key ` set (dedup_seen key (insert (key x) seen) xs) \<inter> insert (key x) seen = {}"
    by (rule dedup_seen_keys)
  then have "key x \<notin> key ` set (dedup_seen key (insert (key x) seen) xs)" by blast
  with Cons show ?case by simp
qed

text \<open>
  The words of a text, one character at a time: a character that is not whitespace
  is a word of its own when the text ends or whitespace follows, and otherwise it
  goes in front of the first word of the rest.
\<close>

lemma ws_words_Cons:
  "\<not> isspace c \<Longrightarrow>
     ws_words (c # cs) =
       (if cs = [] \<or> isspace (hd cs) then [c] # ws_words cs
        else (c # hd (ws_words cs)) # tl (ws_words cs))"
  by (cases cs) simp_all

lemma ws_words_nonempty: "cs \<noteq> [] \<Longrightarrow> \<not> isspace (hd cs) \<Longrightarrow> ws_words cs \<noteq> []"
  by (cases cs) simp_all

lemma ws_words_lstrip: "ws_words (dropWhile isspace s) = ws_words s"
  by (induction s) simp_all

lemma ws_words_spaces: "list_all isspace w \<Longrightarrow> ws_words w = []"
  by (induction w) simp_all

lemma ws_words_append_spaces: "list_all isspace w \<Longrightarrow> ws_words (s @ w) = ws_words s"
proof (induction s)
  case Nil
  then show ?case by (simp add: ws_words_spaces)
next
  case (Cons c cs)
  show ?case
  proof (cases "isspace c")
    case True
    with Cons show ?thesis by simp
  next
    case False
    from Cons.prems have "(cs @ w = [] \<or> isspace (hd (cs @ w))) = (cs = [] \<or> isspace (hd cs))"
      by (cases cs; cases w) simp_all
    with False Cons show ?thesis
      by (simp only: append_Cons ws_words_Cons [OF False])
  qed
qed

lemma ws_words_rstrip: "ws_words (rstrip s) = ws_words s"
proof -
  have "s = rstrip s @ rev (takeWhile isspace (rev s))"
    unfolding rstrip_def by (metis rev_append rev_rev_ident takeWhile_dropWhile_id)
  moreover have "list_all isspace (rev (takeWhile isspace (rev s)))"
    by (auto simp: list_all_iff dest: set_takeWhileD)
  ultimately show ?thesis using ws_words_append_spaces by metis
qed

lemma sub_ws_head:
  "(sub_ws cs = [] \<or> isspace (hd (sub_ws cs))) = (cs = [] \<or> isspace (hd cs))"
  by (cases cs) auto

lemma ws_words_sub_ws: "ws_words (sub_ws s) = ws_words s"
proof (induction s rule: sub_ws.induct)
  case 1
  show ?case by simp
next
  case (2 c cs)
  show ?case
  proof (cases "isspace c")
    case True
    with 2 have "ws_words (sub_ws (dropWhile isspace cs)) = ws_words (dropWhile isspace cs)"
      by simp
    with True show ?thesis by (simp add: ws_words_lstrip)
  next
    case False
    with 2 have ih: "ws_words (sub_ws cs) = ws_words cs" by simp
    from False have "sub_ws (c # cs) = c # sub_ws cs" by simp
    then show ?thesis
      by (simp only: ws_words_Cons [OF False] sub_ws_head ih)
  qed
qed

lemma join_Cons_word: "join sep ((c # w) # ws) = c # join sep (w # ws)"
  by (cases ws) simp_all

lemma join_single_word: "ws \<noteq> [] \<Longrightarrow> join sep ([c] # ws) = c # sep @ join sep ws"
  by (cases ws) simp_all

lemma join_words_normal:
  "single_spaced t \<Longrightarrow> t = [] \<or> \<not> isspace (last t) \<Longrightarrow>
     (if t \<noteq> [] \<and> isspace (hd t) then CHR '' '' # join '' '' (ws_words t)
      else join '' '' (ws_words t)) = t"
proof (induction t)
  case Nil
  show ?case by simp
next
  case (Cons c cs)
  from Cons.prems have ss: "single_spaced cs" by (simp add: single_spaced_Cons)
  show ?case
  proof (cases "cs = []")
    case True
    with Cons.prems show ?thesis by simp
  next
    case ne: False
    with Cons.prems have last: "cs = [] \<or> \<not> isspace (last cs)" by simp
    note ih = Cons.IH [OF ss last]
    show ?thesis
    proof (cases "isspace c")
      case True
      with Cons.prems ne have c: "c = CHR '' ''" and h: "\<not> isspace (hd cs)"
        by (simp_all add: single_spaced_Cons)
      from ih h have "join '' '' (ws_words cs) = cs" by simp
      with True c show ?thesis by simp
    next
      case False
      show ?thesis
      proof (cases "isspace (hd cs)")
        case True
        with ih ne have rest: "CHR '' '' # join '' '' (ws_words cs) = cs" by simp
        then have "join '' '' (ws_words cs) = tl cs" by (metis list.sel(3))
        moreover from rest ne last have "tl cs \<noteq> []"
          using True by (cases cs; cases "tl cs") auto
        ultimately have "ws_words cs \<noteq> []" by (cases "ws_words cs") auto
        then have "join '' '' ([c] # ws_words cs) = c # '' '' @ join '' '' (ws_words cs)"
          by (rule join_single_word)
        with rest have j: "join '' '' ([c] # ws_words cs) = c # cs" by simp
        from True have w: "ws_words (c # cs) = [c] # ws_words cs"
          by (simp only: ws_words_Cons [OF False] simp_thms if_True)
        from j have "join '' '' (ws_words (c # cs)) = c # cs" by (simp only: w)
        with False show ?thesis by (simp only: list.sel simp_thms if_False)
      next
        case h: False
        with ih have rest: "join '' '' (ws_words cs) = cs" by simp
        from ne h have "ws_words cs \<noteq> []" by (rule ws_words_nonempty)
        then have split: "ws_words cs = hd (ws_words cs) # tl (ws_words cs)"
          by simp
        from h ne have w: "ws_words (c # cs) = (c # hd (ws_words cs)) # tl (ws_words cs)"
          by (simp only: ws_words_Cons [OF False] simp_thms if_False)
        have "join '' '' ((c # hd (ws_words cs)) # tl (ws_words cs))
            = c # join '' '' (hd (ws_words cs) # tl (ws_words cs))"
          by (rule join_Cons_word)
        also have "\<dots> = c # join '' '' (ws_words cs)" by (simp only: split [symmetric])
        also have "\<dots> = c # cs" by (simp only: rest)
        finally have "join '' '' (ws_words (c # cs)) = c # cs" by (simp only: w)
        with False show ?thesis by (simp only: list.sel simp_thms if_False)
      qed
    qed
  qed
qed

text \<open>
  \<open>clean_text\<close> returns the words of its argument separated by single spaces.
\<close>

lemma clean_text_spaced_words: "clean_text (Some raw) = spaced_words raw"
proof -
  let ?t = "clean_text (Some raw)"
  have n: "no_edge_ws ?t" and ss: "single_spaced ?t"
    using clean_text_normal by blast+
  from n have "?t = [] \<or> \<not> isspace (last ?t)" by (auto simp: no_edge_ws_def)
  with ss have "(if ?t \<noteq> [] \<and> isspace (hd ?t) then CHR '' '' # join '' '' (ws_words ?t)
      else join '' '' (ws_words ?t)) = ?t"
    by (rule join_words_normal)
  with n have "join '' '' (ws_words ?t) = ?t" by (auto simp: no_edge_ws_def split: if_splits)
  moreover have "ws_words ?t = ws_words raw"
    by (simp add: clean_text_def strip_def lstrip_def ws_words_lstrip ws_words_rstrip
        ws_words_sub_ws)
  ultimately show ?thesis by (simp add: spaced_words_def)
qed

lemma cleaned_entries_spaced_words:
  "cleaned_entries raws = filter (\<lambda>s. s \<noteq> []) (map spaced_words raws)"
  by (simp add: cleaned_entries_def clean_text_spaced_words)

lemma cleaned_entries_normal:
  "s \<in> set (cleaned_entries raws) \<Longrightarrow> s \<noteq> [] \<and> no_edge_ws s \<and> single_spaced s"
  using clean_text_normal by (auto simp: cleaned_entries_def)

lemma parse_skills_list_dedup:
  "parse_skills_list raws = dedup_seen lower {} (cleaned_entries raws)"
  by (simp add: parse_skills_list_def skills_loop_dedup)

text \<open>
  Claim C6: \<open>parse_skills_list\<close> returns the entries, each reduced to its words
  separated by single spaces, without the empty ones, each kept exactly when no
  earlier entry has the same lower-cased form, in their original order and casing.
  So every returned entry is non-empty, has no whitespace at either end and no
  whitespace inside but single spaces, and no two returned entries are equal up to
  letter case. The last conjunct is the example of the specification.
\<close>

theorem parse_skills_list_first_occurrences:
  "parse_skills_list raws
     = first_occurrences lower (filter (\<lambda>s. s \<noteq> []) (map spaced_words raws))
   \<and> (\<forall>s \<in> set (parse_skills_list raws). s \<noteq> [] \<and> no_edge_ws s \<and> single_spaced s)
   \<and> distinct (map lower (parse_skills_list raws))
   \<and> parse_skills_list [''Python'', ''python '', ''Go''] = [''Python'', ''Go'']"
proof (intro conjI ballI)
  show "parse_skills_list raws
      = first_occurrences lower (filter (\<lambda>s. s \<noteq> []) (map spaced_words raws))"
    by (simp only: parse_skills_list_dedup first_occurrences_dedup cleaned_entries_spaced_words)
next
  fix s assume "s \<in> set (parse_skills_list raws)"
  then have "s \<in> set (cleaned_entries raws)"
    using dedup_seen_subset [of lower "{}" "cleaned_entries raws"]
    by (auto simp: parse_skills_list_dedup)
  then have n: "s \<noteq> [] \<and> no_edge_ws s \<and> single_spaced s" by (rule cleaned_entries_normal)
  from n show "s \<noteq> []" by blast
  from n show "no_edge_ws s" by blast
  from n show "single_spaced s" by blast
next
  show "distinct (map lower (parse_skills_list raws))"
    by (simp only: parse_skills_list_dedup dedup_seen_distinct)
next
  show "parse_skills_list [''Python'', ''python '', ''Go''] = [''Python'', ''Go'']"
    by (simp add: parse_skills_list_def clean_text_def strip_def lstrip_def rstrip_def
        isspace_def lower_def lower_char_def isupper_def)
qed

theorem parse_skills_list_first_occurrences_witness:
  "parse_skills_list
     [[CHR 0x09, CHR ''M'', CHR ''L'', CHR '' '', CHR 0x0A, CHR ''o'', CHR ''p'', CHR ''s''],
      ''go'', ''   '', ''ml  OPS '', ''GO'']
     = [''ML ops'', ''go'']
   \<and> ''ML ops'' \<noteq> [] \<and> no_edge_ws ''ML ops'' \<and> single_spaced ''ML ops''
   \<and> distinct (map lower [''ML ops'', ''go''])"
proof -
  let ?raws = "[[CHR 0x09, CHR ''M'', CHR ''L'', CHR '' '', CHR 0x0A, CHR ''o'', CHR ''p'',
      CHR ''s''], ''go'', ''   '', ''ml  OPS '', ''GO'']"
  note spec = parse_skills_list_first_occurrences [of ?raws]
  have words: "filter (\<lambda>s. s \<noteq> []) (map spaced_words ?raws)
      = [''ML ops'', ''go'', ''ml OPS'', ''GO'']"
    by (simp add: spaced_words_def isspace_def)
  have k1: "lower ''ML ops'' = ''ml ops''" and k2: "lower ''go'' = ''go''"
    and k3: "lower ''ml OPS'' = ''ml ops''" and k4: "lower ''GO'' = ''go''"
    by (simp_all add: lower_def lower_char_def isupper_def)
  have "dedup_seen lower {} [''ML ops'', ''go'', ''ml OPS'', ''GO''] = [''ML ops'', ''go'']"
    by (simp add: k1 k2 k3 k4)
  then have fo: "first_occurrences lower [''ML ops'', ''go'', ''ml OPS'', ''GO'']
      = [''ML ops'', ''go'']"
    by (simp only: first_occurrences_dedup)
  from spec have "parse_skills_list ?raws
      = first_occurrences lower (filter (\<lambda>s. s \<noteq> []) (map spaced_words ?raws))"
    by (rule conjunct1)
  then have result: "parse_skills_list ?raws = [''ML ops'', ''go'']"
    by (simp only: words fo)
  from spec have "\<forall>s \<in> set (parse_skills_list ?raws). s \<noteq> [] \<and> no_edge_ws s \<and> single_spaced s"
    by (rule conjunct1 [OF conjunct2])
  then have "\<forall>s \<in> set [''ML ops'', ''go'']. s \<noteq> [] \<and> no_edge_ws s \<and> single_spaced s"
    by (simp only: result)
  then have normal: "''ML ops'' \<noteq> [] \<and> no_edge_ws ''ML ops'' \<and> single_spaced ''ML ops''"
    by (simp only: list.set ball_simps insert_iff) blast
  from spec have "distinct (map lower (parse_skills_list ?raws))"
    by (rule conjunct1 [OF conjunct2 [OF conjunct2]])
  then have "distinct (map lower [''ML ops'', ''go''])" by (simp only: result)
  with result normal show ?thesis by (intro conjI) blast+
qed

section \<open>\<open>parse_client_reviews\<close>\<close>

lemma digit_not_underscore: "re_digit c \<Longrightarrow> c \<noteq> CHR ''_'' \<and> c \<noteq> CHR ''+'' \<and> c \<noteq> CHR ''-''"
  by (auto simp: re_digit_def)

lemma digit_val_nonneg: "0 \<le> digit_val c"
  by (simp add: digit_val_def)

lemma foldl_digits_nonneg: "0 \<le> a \<Longrightarrow> 0 \<le> foldl (\<lambda>a c. 10 * a + digit_val c) a ds"
  by (induction ds arbitrary: a) (simp_all add: digit_val_nonneg)

lemma digits_value_nonneg: "0 \<le> digits_value ds"
  by (simp add: digits_value_def foldl_digits_nonneg)

lemma startswith_set: "startswith s p \<Longrightarrow> set p \<subseteq> set s"
  by (auto simp: startswith_iff)

lemma contains_set: "contains s sub \<Longrightarrow> set sub \<subseteq> set s"
proof (induction s)
  case Nil
  then show ?case by simp
next
  case (Cons c cs)
  then show ?case using startswith_set [of "c # cs" sub] by auto
qed

lemma strip_digits: "ds \<noteq> [] \<Longrightarrow> list_all re_digit ds \<Longrightarrow> strip ds = ds"
proof (rule strip_fixed)
  assume "ds \<noteq> []" and "list_all re_digit ds"
  then have "re_digit (hd ds)" and "re_digit (last ds)"
    by (simp_all add: list_all_iff)
  then show "no_edge_ws ds" by (simp add: no_edge_ws_def digit_not_space)
qed

lemma py_int_digits:
  assumes "ds \<noteq> []" and "list_all re_digit ds" and "length ds \<le> int_max_str_digits"
  shows "py_int ds = Inr (digits_value ds)"
proof -
  from assms have hd: "re_digit (hd ds)" and last: "re_digit (last ds)"
    by (simp_all add: list_all_iff)
  from assms have no_us: "CHR ''_'' \<notin> set ds"
    using digit_not_underscore by (auto simp: list_all_iff)
  then have "\<not> contains ds ''__''" using contains_set by fastforce
  moreover from no_us have "filter (\<lambda>c. c \<noteq> CHR ''_'') ds = ds"
    by (auto simp: filter_id_conv)
  moreover from assms have "list_all (\<lambda>c. re_digit c \<or> c = CHR ''_'') ds"
    by (simp add: list_all_iff)
  moreover from hd have "hd ds \<noteq> CHR ''+''" and "hd ds \<noteq> CHR ''-''"
    using digit_not_underscore by auto
  ultimately show ?thesis
    using assms hd last by (simp add: py_int_def strip_digits)
qed

lemma py_int_too_long:
  assumes "list_all re_digit ds" and "int_max_str_digits < length ds"
  shows "py_int ds = Inl ValueError"
proof -
  from assms(2) have ne: "ds \<noteq> []" by auto
  from assms(1) have no_us: "CHR ''_'' \<notin> set ds"
    using digit_not_underscore by (auto simp: list_all_iff)
  then have f: "filter (\<lambda>c. c \<noteq> CHR ''_'') ds = ds"
    by (auto simp: filter_id_conv)
  from ne assms(1) have "re_digit (hd ds)" by (simp add: list_all_iff)
  then have "hd ds \<noteq> CHR ''+''" and "hd ds \<noteq> CHR ''-''"
    using digit_not_underscore by auto
  with ne assms show ?thesis
    by (simp add: py_int_def Let_def strip_digits f)
qed

lemma py_int_value_error: "py_int s = Inl e \<Longrightarrow> e = ValueError"
  by (auto simp: py_int_def Let_def split: if_splits)

lemma str_isdigit_digits: "ds \<noteq> [] \<Longrightarrow> list_all re_digit ds \<Longrightarrow> str_isdigit ds"
  by (simp add: str_isdigit_def list_all_iff)

lemma digit_runs_digits: "r \<in> set (digit_runs s) \<Longrightarrow> r \<noteq> [] \<and> list_all re_digit r"
proof (induction s arbitrary: r rule: digit_runs.induct)
  case 1
  then show ?case by simp
next
  case (2 c cs)
  show ?case
  proof (cases "re_digit c")
    case True
    with "2.prems" have "r = c # takeWhile re_digit cs
        \<or> r \<in> set (digit_runs (dropWhile re_digit cs))"
      by simp
    then show ?thesis
    proof
      assume "r = c # takeWhile re_digit cs"
      with True show ?thesis by (auto simp: list_all_iff dest: set_takeWhileD)
    next
      assume "r \<in> set (digit_runs (dropWhile re_digit cs))"
      with True show ?thesis using "2.IH"(1) by blast
    qed
  next
    case False
    with "2.prems" have "r \<in> set (digit_runs cs)" by simp
    with False show ?thesis using "2.IH"(2) by blast
  qed
qed

lemma int_all_digits:
  "(\<forall>r \<in> set rs. r \<noteq> [] \<and> list_all re_digit r \<and> length r \<le> int_max_str_digits)
     \<Longrightarrow> int_all rs = Inr (map digits_value rs)"
  by (induction rs) (simp_all add: py_int_digits str_isdigit_digits)

lemma int_all_long:
  assumes "\<forall>r \<in> set rs. r \<noteq> [] \<and> list_all re_digit r"
    and "\<exists>r \<in> set rs. int_max_str_digits < length r"
  shows "int_all rs = Inl ValueError"
  using assms
proof (induction rs)
  case Nil
  then show ?case by simp
next
  case (Cons r rs)
  then have r: "r \<noteq> []" "list_all re_digit r" by simp_all
  show ?case
  proof (cases "int_max_str_digits < length r")
    case True
    with r show ?thesis by (simp add: py_int_too_long str_isdigit_digits)
  next
    case False
    with Cons.prems have "\<exists>r \<in> set rs. int_max_str_digits < length r" by auto
    moreover from Cons.prems have "\<forall>r \<in> set rs. r \<noteq> [] \<and> list_all re_digit r" by simp
    ultimately have "int_all rs = Inl ValueError" by (intro Cons.IH)
    moreover from False r have "py_int r = Inr (digits_value r)"
      by (intro py_int_digits) simp_all
    ultimately show ?thesis using r by (simp add: str_isdigit_digits)
  qed
qed

lemma reviews_fallback_eq:
  assumes "\<forall>r \<in> set (digit_runs t). length r \<le> int_max_str_digits"
  shows "reviews_fallback t = Inr (first_reasonable (map digits_value (digit_runs t)))"
proof -
  have "\<forall>r \<in> set (digit_runs t). r \<noteq> [] \<and> list_all re_digit r \<and> length r \<le> int_max_str_digits"
    using digit_runs_digits assms by blast
  then have "int_all (digit_runs t) = Inr (map digits_value (digit_runs t))"
    by (rule int_all_digits)
  then show ?thesis by (simp add: reviews_fallback_def)
qed

lemma reviews_fallback_long:
  assumes "r \<in> set (digit_runs t)" and "int_max_str_digits < length r"
  shows "reviews_fallback t = Inl ValueError"
proof -
  have "\<forall>r \<in> set (digit_runs t). r \<noteq> [] \<and> list_all re_digit r"
    using digit_runs_digits by blast
  moreover from assms have "\<exists>r \<in> set (digit_runs t). int_max_str_digits < length r" by blast
  ultimately have "int_all (digit_runs t) = Inl ValueError" by (rule int_all_long)
  then show ?thesis by (simp add: reviews_fallback_def)
qed

lemma first_reasonable_find:
  "first_reasonable ns = (case find (\<lambda>n. 0 < n \<and> n < 10000) ns of None \<Rightarrow> 0 | Some n \<Rightarrow> n)"
  by (induction ns) simp_all

lemma first_reasonable_nonneg: "0 \<le> first_reasonable ns"
  by (induction ns) simp_all

lemma match_reviews_at_iff:
  "match_reviews_at s = Some ds \<longleftrightarrow>
     (\<exists>ws rest. s = ds @ ws @ ''reviews'' @ rest \<and> ds \<noteq> [] \<and> list_all re_digit ds
        \<and> ws \<noteq> [] \<and> list_all isspace ws)"
proof
  assume m: "match_reviews_at s = Some ds"
  let ?r1 = "dropWhile re_digit s"
  let ?ws = "takeWhile isspace ?r1"
  from m have ds: "ds = takeWhile re_digit s" and ne: "ds \<noteq> []"
    and w: "ws_then ''reviews'' ?r1"
    by (auto simp: match_reviews_at_def Let_def split: if_splits)
  from w obtain rest where rest: "dropWhile isspace ?r1 = ''reviews'' @ rest"
    by (auto simp: ws_then_def startswith_iff)
  from w have "?ws \<noteq> []" by (cases ?r1) (auto simp: ws_then_def)
  moreover have "s = ds @ ?ws @ ''reviews'' @ rest"
    using ds rest by (metis takeWhile_dropWhile_id)
  moreover have "list_all re_digit ds" using ds by (auto simp: list_all_iff dest: set_takeWhileD)
  moreover have "list_all isspace ?ws" by (auto simp: list_all_iff dest: set_takeWhileD)
  ultimately show "\<exists>ws rest. s = ds @ ws @ ''reviews'' @ rest \<and> ds \<noteq> [] \<and> list_all re_digit ds
        \<and> ws \<noteq> [] \<and> list_all isspace ws"
    using ne by blast
next
  assume "\<exists>ws rest. s = ds @ ws @ ''reviews'' @ rest \<and> ds \<noteq> [] \<and> list_all re_digit ds
        \<and> ws \<noteq> [] \<and> list_all isspace ws"
  then obtain ws rest where s: "s = ds @ ws @ ''reviews'' @ rest" and ne: "ds \<noteq> []"
    and d: "list_all re_digit ds" and wne: "ws \<noteq> []" and w: "list_all isspace ws"
    by blast
  from wne w have hw: "isspace (hd ws)" by (simp add: list_all_iff)
  then have nd: "\<not> re_digit (hd ws)" using digit_not_space by blast
  from wne nd have tw: "takeWhile re_digit (ws @ ''reviews'' @ rest) = []"
    by (cases ws) auto
  from wne nd have dw: "dropWhile re_digit (ws @ ''reviews'' @ rest) = ws @ ''reviews'' @ rest"
    by (cases ws) auto
  from d have t: "takeWhile re_digit s = ds"
    unfolding s using tw by (simp add: takeWhile_append2 list_all_iff)
  from d have r: "dropWhile re_digit s = ws @ ''reviews'' @ rest"
    unfolding s using dw by (simp add: dropWhile_append2 list_all_iff)
  have "dropWhile isspace (ws @ ''reviews'' @ rest) = ''reviews'' @ rest"
    using w by (simp add: dropWhile_append2 list_all_iff isspace_def)
  with wne hw have "ws_then ''reviews'' (ws @ ''reviews'' @ rest)"
    by (simp add: ws_then_def)
  with t r ne show "match_reviews_at s = Some ds"
    by (simp add: match_reviews_at_def)
qed

lemma reviews_match_at_iff:
  "reviews_match_at t i ds \<longleftrightarrow> i \<le> length t \<and> match_reviews_at (drop i t) = Some ds"
  unfolding reviews_match_at_def match_reviews_at_iff by blast

lemma re_search_reviews_hit:
  "match_reviews_at s = Some ds \<Longrightarrow> re_search_reviews s = Some ds"
  by (cases s) (simp_all add: match_reviews_at_def)

lemma re_search_reviews_skip:
  "i \<le> length t \<Longrightarrow> (\<forall>j<i. match_reviews_at (drop j t) = None)
     \<Longrightarrow> re_search_reviews t = re_search_reviews (drop i t)"
proof (induction i arbitrary: t)
  case 0
  show ?case by simp
next
  case (Suc i)
  then obtain c cs where t: "t = c # cs" by (cases t) auto
  from Suc.prems have "match_reviews_at (drop 0 t) = None" by blast
  then have first: "re_search_reviews t = re_search_reviews cs" by (simp add: t)
  have "\<forall>j<i. match_reviews_at (drop j cs) = None"
  proof (intro allI impI)
    fix j assume "j < i"
    then have "match_reviews_at (drop (Suc j) t) = None" using Suc.prems by auto
    then show "match_reviews_at (drop j cs) = None" by (simp add: t)
  qed
  moreover from Suc.prems have "i \<le> length cs" by (simp add: t)
  ultimately have "re_search_reviews cs = re_search_reviews (drop i cs)"
    by (rule Suc.IH [rotated])
  with first show ?case by (simp add: t)
qed

lemma re_search_reviews_none:
  assumes "\<forall>j\<le>length t. match_reviews_at (drop j t) = None"
  shows "re_search_reviews t = None"
proof -
  have "re_search_reviews t = re_search_reviews (drop (length t) t)"
    using assms by (intro re_search_reviews_skip) auto
  then show ?thesis by simp
qed

lemma re_search_reviews_some:
  "re_search_reviews s = Some g1 \<Longrightarrow> g1 \<noteq> [] \<and> list_all re_digit g1"
proof (induction s)
  case Nil
  then show ?case by simp
next
  case (Cons c cs)
  show ?case
  proof (cases "match_reviews_at (c # cs)")
    case None
    with Cons show ?thesis by simp
  next
    case (Some g)
    with Cons.prems have "match_reviews_at (c # cs) = Some g1" by simp
    then show ?thesis unfolding match_reviews_at_iff by blast
  qed
qed

lemma re_search_reviews_value:
  assumes "re_search_reviews s = Some g1" and "py_int g1 = Inr v"
  shows "v = digits_value g1 \<and> 0 \<le> v"
proof -
  from assms(1) have g: "g1 \<noteq> []" "list_all re_digit g1"
    using re_search_reviews_some by blast+
  have "length g1 \<le> int_max_str_digits"
  proof (rule ccontr)
    assume "\<not> length g1 \<le> int_max_str_digits"
    with g(2) have "py_int g1 = Inl ValueError" by (intro py_int_too_long) simp_all
    with assms(2) show False by simp
  qed
  with g have "py_int g1 = Inr (digits_value g1)" by (intro py_int_digits)
  with assms(2) show ?thesis using digits_value_nonneg [of g1] by simp
qed

lemma reviews_match_found:
  "reviews_match_at t i ds \<Longrightarrow> \<exists>g. re_search_reviews t = Some g"
proof (induction i arbitrary: t)
  case 0
  then show ?case by (auto simp: reviews_match_at_iff re_search_reviews_hit)
next
  case (Suc i)
  then obtain c cs where t: "t = c # cs" by (cases t) (auto simp: reviews_match_at_iff)
  with Suc.prems have "reviews_match_at cs i ds" by (simp add: reviews_match_at_iff)
  then obtain g where "re_search_reviews cs = Some g" using Suc.IH by blast
  then show ?case by (cases "match_reviews_at (c # cs)") (simp_all add: t)
qed

lemma reviews_no_match:
  "re_search_reviews t = None \<Longrightarrow> \<forall>i ds. \<not> reviews_match_at t i ds"
  using reviews_match_found by fastforce

lemma match_option: "(\<forall>ds. match_reviews_at s \<noteq> Some ds) \<longleftrightarrow> match_reviews_at s = None"
  by (cases "match_reviews_at s") auto

lemma re_search_reviews_first:
  "re_search_reviews t = Some ds \<Longrightarrow>
     \<exists>i. reviews_match_at t i ds \<and> (\<forall>j<i. \<forall>ds'. \<not> reviews_match_at t j ds')"
proof (induction t)
  case Nil
  then show ?case by simp
next
  case (Cons c cs)
  show ?case
  proof (cases "match_reviews_at (c # cs)")
    case (Some g)
    with Cons.prems have "match_reviews_at (c # cs) = Some ds" by simp
    then have "reviews_match_at (c # cs) 0 ds" by (simp add: reviews_match_at_iff)
    then show ?thesis by blast
  next
    case None
    with Cons.prems have "re_search_reviews cs = Some ds" by simp
    then obtain i where i: "reviews_match_at cs i ds"
      and first: "\<forall>j<i. \<forall>ds'. \<not> reviews_match_at cs j ds'"
      using Cons.IH by blast
    from i have "reviews_match_at (c # cs) (Suc i) ds" by (simp add: reviews_match_at_iff)
    moreover have "\<forall>j<Suc i. \<forall>ds'. \<not> reviews_match_at (c # cs) j ds'"
    proof (intro allI impI)
      fix j ds' assume j: "j < Suc i"
      show "\<not> reviews_match_at (c # cs) j ds'"
      proof (cases j)
        case 0
        with None show ?thesis by (simp add: reviews_match_at_iff)
      next
        case (Suc k)
        with j first have "\<not> reviews_match_at cs k ds'" by simp
        with Suc show ?thesis by (simp add: reviews_match_at_iff)
      qed
    qed
    ultimately show ?thesis by blast
  qed
qed

lemma parse_client_reviews_first_match:
  assumes h: "reviews_match_at (lower (clean_text text)) i ds"
    and first: "\<forall>j<i. \<forall>ds'. \<not> reviews_match_at (lower (clean_text text)) j ds'"
    and len: "length ds \<le> int_max_str_digits"
  shows "parse_client_reviews text = Inr (digits_value ds)"
proof -
  let ?t = "lower (clean_text text)"
  from h have i: "i \<le> length ?t" and m: "match_reviews_at (drop i ?t) = Some ds"
    by (simp_all add: reviews_match_at_iff)
  have "\<forall>j<i. match_reviews_at (drop j ?t) = None"
  proof (intro allI impI)
    fix j assume "j < i"
    with first i have "\<forall>ds'. match_reviews_at (drop j ?t) \<noteq> Some ds'"
      by (simp add: reviews_match_at_iff)
    then show "match_reviews_at (drop j ?t) = None" by (simp only: match_option)
  qed
  with i have "re_search_reviews ?t = re_search_reviews (drop i ?t)"
    by (rule re_search_reviews_skip)
  with m have found: "re_search_reviews ?t = Some ds"
    by (simp add: re_search_reviews_hit)
  from m have "ds \<noteq> [] \<and> list_all re_digit ds"
    unfolding match_reviews_at_iff by blast
  with len have "py_int ds = Inr (digits_value ds)" by (simp add: py_int_digits)
  with found show ?thesis
    by (simp add: parse_client_reviews_def)
qed

lemma parse_client_reviews_no_match:
  assumes "\<forall>i ds. \<not> reviews_match_at (lower (clean_text text)) i ds"
    and "\<forall>r \<in> set (digit_runs (lower (clean_text text))). length r \<le> int_max_str_digits"
  shows "parse_client_reviews text =
     Inr (case find (\<lambda>n. 0 < n \<and> n < 10000)
                 (map digits_value (digit_runs (lower (clean_text text)))) of
            None \<Rightarrow> 0 | Some n \<Rightarrow> n)"
proof -
  let ?t = "lower (clean_text text)"
  from assms(1) have "\<forall>j\<le>length ?t. \<forall>ds'. match_reviews_at (drop j ?t) \<noteq> Some ds'"
    by (simp add: reviews_match_at_iff)
  then have "\<forall>j\<le>length ?t. match_reviews_at (drop j ?t) = None"
    by (simp only: match_option)
  then have "re_search_reviews ?t = None" by (rule re_search_reviews_none)
  then show ?thesis
    by (simp add: parse_client_reviews_def reviews_fallback_eq [OF assms(2)] first_reasonable_find)
qed

lemma parse_client_reviews_total:
  assumes "\<forall>r \<in> set (digit_runs (lower (clean_text text))). length r \<le> int_max_str_digits"
  shows "\<exists>n. parse_client_reviews text = Inr n \<and> 0 \<le> n"
proof (cases "re_search_reviews (lower (clean_text text))")
  case None
  then show ?thesis
    by (simp add: parse_client_reviews_def reviews_fallback_eq [OF assms] first_reasonable_nonneg)
next
  case (Some g1)
  show ?thesis
  proof (cases "py_int g1")
    case (Inr v)
    with Some have "0 \<le> v"
      using re_search_reviews_value by blast
    with Some Inr show ?thesis by (simp add: parse_client_reviews_def)
  next
    case (Inl e)
    then have "e = ValueError" by (rule py_int_value_error)
    with Some Inl show ?thesis
      by (simp add: parse_client_reviews_def reviews_fallback_eq [OF assms]
          first_reasonable_nonneg)
  qed
qed

text \<open>
  When the text is a run of digits \<open>ds\<close> followed by a character that is not a
  digit, \<open>ds\<close> is the first of the digit runs; a text made of digits only has no
  match of the pattern and is its own single digit run.
\<close>

lemma digit_runs_prefix:
  assumes "ds \<noteq> []" and "list_all re_digit ds" and "\<not> re_digit c"
  shows "digit_runs (ds @ c # r) = ds # digit_runs (c # r)"
proof -
  from assms(1) obtain d ds' where ds: "ds = d # ds'" by (cases ds) auto
  with assms(2) have d: "re_digit d" and ds': "list_all re_digit ds'" by simp_all
  from assms(3) have "digit_runs (c # r) = digit_runs r" by simp
  with d show ?thesis
    unfolding ds
    by (simp add: takeWhile_digits [OF ds' assms(3)] dropWhile_digits [OF ds' assms(3)])
qed

lemma digit_runs_all_digits:
  assumes "ds \<noteq> []" and "list_all re_digit ds"
  shows "digit_runs ds = [ds]"
proof -
  from assms(1) obtain d ds' where ds: "ds = d # ds'" by (cases ds) auto
  with assms(2) have d: "re_digit d" and ds': "\<forall>x \<in> set ds'. re_digit x"
    by (simp_all add: list_all_iff)
  from ds' have t: "takeWhile re_digit ds' = ds'" and r: "dropWhile re_digit ds' = []"
    by simp_all
  from d have "digit_runs (d # ds')
      = (d # takeWhile re_digit ds') # digit_runs (dropWhile re_digit ds')"
    by simp
  then show ?thesis unfolding ds by (simp only: t r digit_runs.simps)
qed

lemma re_search_reviews_all_digits: "list_all re_digit ds \<Longrightarrow> re_search_reviews ds = None"
proof (induction ds)
  case Nil
  show ?case by simp
next
  case (Cons d ds)
  then have "\<forall>x \<in> set (d # ds). re_digit x" by (simp add: list_all_iff)
  then have "dropWhile re_digit (d # ds) = []" by (simp only: dropWhile_eq_Nil_conv)
  then have "match_reviews_at (d # ds) = None"
    by (simp only: match_reviews_at_def Let_def ws_then_def) simp
  with Cons show ?case by simp
qed

lemma replicate_nines: "list_all re_digit (replicate n (CHR ''9''))"
  by (simp add: list_all_iff re_digit_def)

lemma clean_text_digits:
  assumes "ds \<noteq> []" and "list_all re_digit ds"
  shows "clean_text (Some ds) = ds"
    and "clean_text (Some (ds @ '' '')) = ds"
    and "clean_text (Some (ds @ '' reviews'')) = ds @ '' reviews''"
proof -
  have sub: "sub_ws (ds @ r) = ds @ sub_ws r" for r
    using assms(2) by (rule sub_ws_digits)
  from sub [of "[]"] show "clean_text (Some ds) = ds"
    by (simp add: clean_text_def strip_digits [OF assms])
  have "rstrip (ds @ '' '') = rstrip ds" by (simp add: rstrip_def)
  then have "strip (ds @ '' '') = strip ds" by (simp add: strip_def)
  with sub [of "'' ''"] show "clean_text (Some (ds @ '' '')) = ds"
    by (simp add: clean_text_def strip_digits [OF assms])
  have "no_edge_ws (ds @ '' reviews'')"
    using assms
    by (cases ds) (simp_all add: no_edge_ws_def digit_not_space isspace_def [of "CHR ''s''"])
  then have "strip (ds @ '' reviews'') = ds @ '' reviews''" by (rule strip_fixed)
  moreover have "sub_ws '' reviews'' = '' reviews''" by (simp add: isspace_def)
  ultimately show "clean_text (Some (ds @ '' reviews'')) = ds @ '' reviews''"
    using sub [of "'' reviews''"] by (simp add: clean_text_def)
qed

lemma parse_client_reviews_long_run:
  assumes "ds \<noteq> []" and "list_all re_digit ds" and "int_max_str_digits < length ds"
  shows "parse_client_reviews (Some (ds @ '' '')) = Inl ValueError"
    and "parse_client_reviews (Some (ds @ '' reviews'')) = Inl ValueError"
proof -
  have t1: "lower (clean_text (Some (ds @ '' ''))) = ds"
    by (simp only: clean_text_digits [OF assms(1,2)] lower_digits [OF assms(2)])
  have "reviews_fallback ds = Inl ValueError"
    using assms by (intro reviews_fallback_long [of ds]) (simp_all add: digit_runs_all_digits)
  then show "parse_client_reviews (Some (ds @ '' '')) = Inl ValueError"
    unfolding parse_client_reviews_def t1 Let_def
    by (simp add: re_search_reviews_all_digits [OF assms(2)])
  have "lower '' reviews'' = '' reviews''" by (simp add: lower_def lower_char_def isupper_def)
  then have t2: "lower (clean_text (Some (ds @ '' reviews''))) = ds @ '' reviews''"
    by (simp only: clean_text_digits [OF assms(1,2)] lower_append lower_digits [OF assms(2)])
  have "match_reviews_at (ds @ '' reviews'') = Some ds"
    unfolding match_reviews_at_iff
    using assms(1,2) by (intro exI [of _ "'' ''"] exI [of _ "[]"]) (simp add: isspace_def)
  then have found: "re_search_reviews (ds @ '' reviews'') = Some ds"
    by (rule re_search_reviews_hit)
  have "\<not> re_digit (CHR '' '')" by (simp add: re_digit_def)
  then have "digit_runs (ds @ '' reviews'') = ds # digit_runs '' reviews''"
    using digit_runs_prefix [OF assms(1,2), of "CHR '' ''" "''reviews''"] by simp
  then have "reviews_fallback (ds @ '' reviews'') = Inl ValueError"
    using assms(3) by (intro reviews_fallback_long [of ds]) simp_all
  with found show "parse_client_reviews (Some (ds @ '' reviews'')) = Inl ValueError"
    unfolding parse_client_reviews_def t2 Let_def
    by (simp add: py_int_too_long [OF assms(2,3)])
qed

text \<open>
  Claim C3, as stated, at the text made of 4301 nines followed by \<open> reviews\<close>: the
  pattern \<open><N> reviews\<close> matches at the start, with the 4301 nines as \<open>N\<close>, yet the
  call does not return \<open>N\<close>, and it raises. The conversion of \<open>N\<close> exceeds the
  interpreter's digit limit; its \<open>ValueError\<close> is caught, and the conversion in the
  fallback, which is outside the \<open>try\<close>, raises it again.
\<close>

theorem parse_client_reviews_long_number:
  "reviews_match_at (lower (clean_text (Some (replicate 4301 (CHR ''9'') @ '' reviews''))))
       0 (replicate 4301 (CHR ''9''))
   \<and> parse_client_reviews (Some (replicate 4301 (CHR ''9'') @ '' reviews'')) = Inl ValueError"
proof -
  let ?ds = "replicate 4301 (CHR ''9'')"
  have ne: "?ds \<noteq> []" by simp
  have d: "list_all re_digit ?ds" by (rule replicate_nines)
  have long: "int_max_str_digits < length ?ds" by (simp add: int_max_str_digits_def)
  have "lower '' reviews'' = '' reviews''" by (simp add: lower_def lower_char_def isupper_def)
  then have t: "lower (clean_text (Some (?ds @ '' reviews''))) = ?ds @ '' reviews''"
    by (simp only: clean_text_digits [OF ne d] lower_append lower_digits [OF d])
  have "match_reviews_at (?ds @ '' reviews'') = Some ?ds"
    unfolding match_reviews_at_iff
    using ne d by (intro exI [of _ "'' ''"] exI [of _ "[]"]) (simp add: isspace_def)
  then have "reviews_match_at (?ds @ '' reviews'') 0 ?ds"
    by (simp add: reviews_match_at_iff)
  with t parse_client_reviews_long_run(2) [OF ne d long] show ?thesis by simp
qed

text \<open>
  Claim C3, amended: on the cleaned, lower-cased text, when the pattern
  \<open><N> reviews\<close> matches and the \<open>N\<close> of the first (leftmost) match has at most
  4300 digits, \<open>parse_client_reviews\<close> returns \<open>N\<close>; when the pattern matches
  nowhere and no run of digits is longer than 4300, the result is the first run of
  digits, from the left, whose value is strictly between 0 and 10000, and 0 when
  there is none. On every text without a run of more than 4300 digits the function
  returns a non-negative integer and does not raise.
\<close>

theorem parse_client_reviews_spec:
  "(\<forall>i ds. reviews_match_at (lower (clean_text text)) i ds
        \<and> (\<forall>j<i. \<forall>ds'. \<not> reviews_match_at (lower (clean_text text)) j ds')
        \<and> length ds \<le> int_max_str_digits
      \<longrightarrow> parse_client_reviews text = Inr (digits_value ds))
   \<and> ((\<forall>i ds. \<not> reviews_match_at (lower (clean_text text)) i ds)
        \<and> (\<forall>r \<in> set (digit_runs (lower (clean_text text))). length r \<le> int_max_str_digits)
      \<longrightarrow> parse_client_reviews text =
            Inr (case find (\<lambda>n. 0 < n \<and> n < 10000)
                        (map digits_value (digit_runs (lower (clean_text text)))) of
                   None \<Rightarrow> 0 | Some n \<Rightarrow> n))
   \<and> ((\<forall>r \<in> set (digit_runs (lower (clean_text text))). length r \<le> int_max_str_digits)
      \<longrightarrow> (\<exists>n. parse_client_reviews text = Inr n \<and> 0 \<le> n))"
proof (intro conjI allI impI)
  fix i ds
  assume "reviews_match_at (lower (clean_text text)) i ds
        \<and> (\<forall>j<i. \<forall>ds'. \<not> reviews_match_at (lower (clean_text text)) j ds')
        \<and> length ds \<le> int_max_str_digits"
  then show "parse_client_reviews text = Inr (digits_value ds)"
    using parse_client_reviews_first_match by blast
next
  assume "(\<forall>i ds. \<not> reviews_match_at (lower (clean_text text)) i ds)
        \<and> (\<forall>r \<in> set (digit_runs (lower (clean_text text))). length r \<le> int_max_str_digits)"
  then show "parse_client_reviews text =
            Inr (case find (\<lambda>n. 0 < n \<and> n < 10000)
                        (map digits_value (digit_runs (lower (clean_text text)))) of
                   None \<Rightarrow> 0 | Some n \<Rightarrow> n)"
    by (intro parse_client_reviews_no_match) blast+
next
  assume "\<forall>r \<in> set (digit_runs (lower (clean_text text))). length r \<le> int_max_str_digits"
  then show "\<exists>n. parse_client_reviews text = Inr n \<and> 0 \<le> n"
    by (rule parse_client_reviews_total)
qed

lemma short_text_runs:
  "length t \<le> int_max_str_digits \<Longrightarrow> \<forall>r \<in> set (digit_runs t). length r \<le> int_max_str_digits"
proof -
  have "r \<in> set (digit_runs s) \<Longrightarrow> length r \<le> length s" for r s
  proof (induction s arbitrary: r rule: digit_runs.induct)
    case 1
    then show ?case by simp
  next
    case (2 c cs)
    show ?case
    proof (cases "re_digit c")
      case True
      with "2.prems" have "r = c # takeWhile re_digit cs
          \<or> r \<in> set (digit_runs (dropWhile re_digit cs))"
        by simp
      then show ?thesis
      proof
        assume "r = c # takeWhile re_digit cs"
        then show ?thesis using length_takeWhile_le [of re_digit cs] by simp
      next
        assume "r \<in> set (digit_runs (dropWhile re_digit cs))"
        with True have "length r \<le> length (dropWhile re_digit cs)" by (rule "2.IH"(1))
        then show ?thesis using length_dropWhile_le [of re_digit cs] by simp
      qed
    next
      case False
      with "2.prems" have "r \<in> set (digit_runs cs)" by simp
      with False have "length r \<le> length cs" by (rule "2.IH"(2))
      then show ?thesis by simp
    qed
  qed
  then show "length t \<le> int_max_str_digits
      \<Longrightarrow> \<forall>r \<in> set (digit_runs t). length r \<le> int_max_str_digits"
    by fastforce
qed

theorem parse_client_reviews_spec_witness:
  "reviews_match_at ''48 reviews, $15,000+ spent'' 0 ''48''
   \<and> parse_client_reviews (Some ''48 reviews, $15,000+ Spent'') = Inr 48
   \<and> re_search_reviews ''7 days, 48 reviews'' = Some ''48''
   \<and> parse_client_reviews (Some ''7 days,  48 REVIEWS'') = Inr 48
   \<and> (\<forall>i ds. \<not> reviews_match_at ''12000 spent 7 days'' i ds)
   \<and> parse_client_reviews (Some ''12000 spent 7 days'') = Inr 7
   \<and> parse_client_reviews (Some ''12000 spent'') = Inr 0
   \<and> parse_client_reviews (Some []) = Inr 0"
proof -
  let ?a = "Some ''48 reviews, $15,000+ Spent''"
  let ?b = "Some ''12000 spent 7 days''"
  let ?c = "Some ''7 days,  48 REVIEWS''"
  let ?d = "Some ''12000 spent''"
  have ta: "lower (clean_text ?a) = ''48 reviews, $15,000+ spent''"
    by (simp add: clean_text_def strip_def lstrip_def rstrip_def isspace_def lower_def
        lower_char_def isupper_def)
  have tb: "lower (clean_text ?b) = ''12000 spent 7 days''"
    by (simp add: clean_text_def strip_def lstrip_def rstrip_def isspace_def lower_def
        lower_char_def isupper_def)
  have tc: "lower (clean_text ?c) = ''7 days, 48 reviews''"
    by (simp add: clean_text_def strip_def lstrip_def rstrip_def isspace_def lower_def
        lower_char_def isupper_def)
  have td: "lower (clean_text ?d) = ''12000 spent''"
    by (simp add: clean_text_def strip_def lstrip_def rstrip_def isspace_def lower_def
        lower_char_def isupper_def)
  have te: "lower (clean_text (Some [])) = []"
    by (simp add: clean_text_def strip_def lstrip_def rstrip_def lower_def)
  have m: "reviews_match_at ''48 reviews, $15,000+ spent'' 0 ''48''"
    unfolding reviews_match_at_def
    by (intro exI [of _ "'' ''"] exI [of _ "'', $15,000+ spent''"])
      (simp add: re_digit_def)
  have sc: "re_search_reviews ''7 days, 48 reviews'' = Some ''48''"
    by (simp add: match_reviews_at_def re_digit_def ws_then_def isspace_def)
  then obtain i where mc: "reviews_match_at ''7 days, 48 reviews'' i ''48''"
    and fc: "\<forall>j<i. \<forall>ds'. \<not> reviews_match_at ''7 days, 48 reviews'' j ds'"
    using re_search_reviews_first by blast
  have "re_search_reviews ''12000 spent 7 days'' = None"
    by (simp add: match_reviews_at_def re_digit_def ws_then_def isspace_def)
  then have nb: "\<forall>i ds. \<not> reviews_match_at ''12000 spent 7 days'' i ds"
    by (rule reviews_no_match)
  have "re_search_reviews ''12000 spent'' = None"
    by (simp add: match_reviews_at_def re_digit_def ws_then_def isspace_def)
  then have nd: "\<forall>i ds. \<not> reviews_match_at ''12000 spent'' i ds"
    by (rule reviews_no_match)
  have "re_search_reviews [] = None" by simp
  then have ne: "\<forall>i ds. \<not> reviews_match_at [] i ds"
    by (rule reviews_no_match)
  have l48: "length ''48'' \<le> int_max_str_digits" by (simp add: int_max_str_digits_def)
  have rb: "\<forall>r \<in> set (digit_runs ''12000 spent 7 days''). length r \<le> int_max_str_digits"
    by (rule short_text_runs) (simp add: int_max_str_digits_def)
  have rd: "\<forall>r \<in> set (digit_runs ''12000 spent''). length r \<le> int_max_str_digits"
    by (rule short_text_runs) (simp add: int_max_str_digits_def)
  have re: "\<forall>r \<in> set (digit_runs []). length r \<le> int_max_str_digits"
    by simp
  have a: "parse_client_reviews ?a = Inr (digits_value ''48'')"
    using parse_client_reviews_spec [of ?a] m l48 unfolding ta by blast
  have c: "parse_client_reviews ?c = Inr (digits_value ''48'')"
    using parse_client_reviews_spec [of ?c] mc fc l48 unfolding tc by blast
  have b: "parse_client_reviews ?b =
      Inr (case find (\<lambda>n. 0 < n \<and> n < 10000)
                  (map digits_value (digit_runs ''12000 spent 7 days'')) of
             None \<Rightarrow> 0 | Some n \<Rightarrow> n)"
    using parse_client_reviews_spec [of ?b] nb rb unfolding tb by blast
  have d: "parse_client_reviews ?d =
      Inr (case find (\<lambda>n. 0 < n \<and> n < 10000)
                  (map digits_value (digit_runs ''12000 spent'')) of
             None \<Rightarrow> 0 | Some n \<Rightarrow> n)"
    using parse_client_reviews_spec [of ?d] nd rd unfolding td by blast
  have e: "parse_client_reviews (Some []) =
      Inr (case find (\<lambda>n. 0 < n \<and> n < 10000) (map digits_value (digit_runs [])) of
             None \<Rightarrow> 0 | Some n \<Rightarrow> n)"
    using parse_client_reviews_spec [of "Some []"] ne re unfolding te by blast
  from a have a': "parse_client_reviews ?a = Inr 48"
    by (simp add: digits_value_def digit_val_def)
  from c have c': "parse_client_reviews ?c = Inr 48"
    by (simp add: digits_value_def digit_val_def)
  from b have b': "parse_client_reviews ?b = Inr 7"
    by (simp add: digits_value_def digit_val_def re_digit_def)
  from d have d': "parse_client_reviews ?d = Inr 0"
    by (simp add: digits_value_def digit_val_def re_digit_def)
  from e have e': "parse_client_reviews (Some []) = Inr 0"
    by simp
  from m a' sc c' nb b' d' e' show ?thesis by blast
qed

section \<open>\<open>parse_created_at\<close>\<close>

lemma units_cases:
  "u \<in> set units \<Longrightarrow>
     u = ''minute'' \<or> u = ''minutes'' \<or> u = ''hour'' \<or> u = ''hours''
     \<or> u = ''day'' \<or> u = ''days'' \<or> u = ''week'' \<or> u = ''weeks''"
  by (simp add: units_def)

lemma delta_micros_units: "u \<in> set units \<Longrightarrow> delta_micros u v = v * unit_micros u"
  by (drule units_cases)
    (auto simp: delta_micros_def unit_micros_def us_per_minute_def us_per_hour_def
      us_per_day_def us_per_week_def)

lemma unit_micros_pos: "u \<in> set units \<Longrightarrow> 0 < unit_micros u"
  by (drule units_cases) (auto simp: unit_micros_def)

lemma relative_clean:
  assumes "ds \<noteq> []" and "list_all re_digit ds" and "u \<in> set units"
  shows "clean_text (Some (''Posted '' @ ds @ '' '' @ u @ '' ago''))
           = ''Posted '' @ ds @ '' '' @ u @ '' ago''"
proof -
  have sub: "sub_ws (''Posted '' @ ds @ '' '' @ u @ '' ago'')
      = ''Posted '' @ ds @ '' '' @ u @ '' ago''"
    using units_cases [OF assms(3)] assms(1,2)
    by (auto simp: isspace_def [of "CHR ''P''"] isspace_def [of "CHR ''o''"]
        isspace_def [of "CHR ''s''"] isspace_def [of "CHR ''t''"] isspace_def [of "CHR ''e''"]
        isspace_def [of "CHR ''d''"] isspace_def [of "CHR ''m''"] isspace_def [of "CHR ''i''"]
        isspace_def [of "CHR ''n''"] isspace_def [of "CHR ''u''"] isspace_def [of "CHR ''h''"]
        isspace_def [of "CHR ''r''"] isspace_def [of "CHR ''a''"] isspace_def [of "CHR ''y''"]
        isspace_def [of "CHR ''w''"] isspace_def [of "CHR ''k''"] isspace_def [of "CHR ''g''"]
        sub_ws_digits dropWhile_space_digits)
  have "strip (''Posted '' @ ds @ '' '' @ u @ '' ago'') = ''Posted '' @ ds @ '' '' @ u @ '' ago''"
    by (rule strip_fixed) (simp add: no_edge_ws_def isspace_def)
  with sub show ?thesis by (simp add: clean_text_def)
qed

lemma relative_lower:
  assumes "list_all re_digit ds" and "u \<in> set units"
  shows "lower (''Posted '' @ ds @ '' '' @ u @ '' ago'') = ''posted '' @ ds @ '' '' @ u @ '' ago''"
proof -
  have "lower u = u"
    using units_cases [OF assms(2)] by (auto simp: lower_def lower_char_def isupper_def)
  moreover have "lower ''Posted '' = ''posted ''" and "lower '' '' = '' ''"
    and "lower '' ago'' = '' ago''"
    by (simp_all add: lower_def lower_char_def isupper_def)
  ultimately show ?thesis
    using assms(1) by (simp only: lower_append lower_digits)
qed

lemma relative_strip_posted:
  assumes "ds \<noteq> []" and "list_all re_digit ds" and "u \<in> set units"
  shows "strip_posted (''posted '' @ ds @ '' '' @ u @ '' ago'') = ds @ '' '' @ u @ '' ago''"
proof -
  from assms(1,2) obtain d ds' where ds: "ds = d # ds'" and d: "re_digit d"
    by (cases ds) auto
  from d have nd: "d \<noteq> CHR '' ''" "d \<noteq> CHR '',''" "d \<noteq> CHR ''-''"
    by (auto simp: re_digit_def)
  have "rstrip_chars '' ,-'' ('' '' @ ds @ '' '' @ u @ '' ago'') = '' '' @ ds @ '' '' @ u @ '' ago''"
    by (simp add: rstrip_chars_def)
  then show ?thesis
    using nd by (simp add: strip_posted_def strip_chars_def ds)
qed

lemma relative_match:
  assumes "ds \<noteq> []" and "list_all re_digit ds" and "u \<in> set units"
  shows "re_match_relative (ds @ '' '' @ u @ '' ago'') = Some (ds, u)"
proof -
  have nd: "\<not> re_digit (CHR '' '')" by (simp add: re_digit_def)
  have t: "takeWhile re_digit (ds @ '' '' @ u @ '' ago'') = ds"
    using takeWhile_digits [OF assms(2) nd] by simp
  have r: "dropWhile re_digit (ds @ '' '' @ u @ '' ago'') = '' '' @ u @ '' ago''"
    using dropWhile_digits [OF assms(2) nd] by simp
  have "find (\<lambda>w. startswith (dropWhile isspace ('' '' @ u @ '' ago'')) w
          \<and> ws_then ''ago'' (drop (length w) (dropWhile isspace ('' '' @ u @ '' ago'')))) units
        = Some u"
    using units_cases [OF assms(3)]
    by (elim disjE) (simp_all add: units_def ws_then_def isspace_def)
  with t r assms(1) show ?thesis
    by (simp add: re_match_relative_def)
qed

lemma relative_in_range:
  assumes "0 \<le> delta" and "delta \<le> micros now" and "micros now < max_micros"
  shows "timedelta delta = Inr delta"
    and "datetime_sub now delta = Inr (now\<lparr>micros := micros now - delta\<rparr>)"
proof -
  from assms have "delta < 3652059 * us_per_day" by (simp add: max_micros_def us_per_day_def)
  then have "delta div us_per_day < 3652059"
    by (simp add: us_per_day_def div_less_iff_less_mult)
  moreover from assms(1) have "0 \<le> delta div us_per_day"
    by (simp add: us_per_day_def pos_imp_zdiv_nonneg_iff)
  ultimately show "timedelta delta = Inr delta" by (simp add: timedelta_def)
  from assms show "datetime_sub now delta = Inr (now\<lparr>micros := micros now - delta\<rparr>)"
    by (simp add: datetime_sub_def Let_def)
qed

lemma parse_created_at_relative:
  assumes ds: "ds \<noteq> []" "list_all re_digit ds" and u: "u \<in> set units"
    and len: "length ds \<le> int_max_str_digits"
    and range: "digits_value ds * unit_micros u \<le> micros now" "micros now < max_micros"
  shows "parse_created_at isoformat date_parse now
            (Some (''Posted '' @ ds @ '' '' @ u @ '' ago''))
         = Inr (isoformat (now\<lparr>micros := micros now - digits_value ds * unit_micros u\<rparr>))"
proof -
  let ?delta = "digits_value ds * unit_micros u"
  have "0 \<le> ?delta"
    using digits_value_nonneg [of ds] unit_micros_pos [OF u] by simp
  note ok = relative_in_range [OF this range]
  have tc: "lower (clean_text (Some (''Posted '' @ ds @ '' '' @ u @ '' ago'')))
      = ''posted '' @ ds @ '' '' @ u @ '' ago''"
    by (simp only: relative_clean [OF ds u] relative_lower [OF ds(2) u])
  show ?thesis
    unfolding parse_created_at_def tc Let_def
    by (simp add: relative_strip_posted [OF ds u, simplified] relative_match [OF ds u, simplified]
        py_int_digits [OF ds len] delta_micros_units [OF u] ok)
qed

lemma parse_created_at_long_number:
  assumes ds: "ds \<noteq> []" "list_all re_digit ds" and u: "u \<in> set units"
    and long: "int_max_str_digits < length ds"
  shows "parse_created_at isoformat date_parse now
            (Some (''Posted '' @ ds @ '' '' @ u @ '' ago'')) = Inl ValueError"
proof -
  have tc: "lower (clean_text (Some (''Posted '' @ ds @ '' '' @ u @ '' ago'')))
      = ''posted '' @ ds @ '' '' @ u @ '' ago''"
    by (simp only: relative_clean [OF ds u] relative_lower [OF ds(2) u])
  show ?thesis
    unfolding parse_created_at_def tc Let_def
    by (simp add: relative_strip_posted [OF ds u, simplified] relative_match [OF ds u, simplified]
        py_int_too_long [OF ds(2) long])
qed

lemma parse_created_at_yesterday:
  assumes "us_per_day \<le> micros now" and "micros now < max_micros"
  shows "parse_created_at isoformat date_parse now (Some ''yesterday'')
         = Inr (isoformat (now\<lparr>micros := micros now - us_per_day\<rparr>))"
proof -
  have "0 \<le> us_per_day" by (simp add: us_per_day_def)
  note ok = relative_in_range [OF this assms]
  have tc: "lower (clean_text (Some ''yesterday'')) = ''yesterday''"
    by (simp add: clean_text_def strip_def lstrip_def rstrip_def isspace_def lower_def
        lower_char_def isupper_def)
  have m: "re_match_relative ''yesterday'' = None"
    by (simp add: re_match_relative_def re_digit_def)
  have sp: "strip_posted ''yesterday'' = ''yesterday''"
    by (simp add: strip_posted_def)
  show ?thesis
    unfolding parse_created_at_def tc Let_def by (simp add: sp m ok)
qed

lemma clean_text_whitespace: "\<forall>c \<in> set s. isspace c \<Longrightarrow> clean_text (Some s) = []"
proof (cases s)
  case Nil
  then show ?thesis by (simp add: clean_text_def strip_def lstrip_def rstrip_def)
next
  case (Cons c cs)
  assume all: "\<forall>c \<in> set s. isspace c"
  with Cons have dw: "dropWhile isspace cs = []" and c: "isspace c" by simp_all
  from c have "sub_ws (c # cs) = CHR '' '' # sub_ws (dropWhile isspace cs)" by simp
  also have "\<dots> = '' ''" by (simp only: dw sub_ws.simps)
  finally have "sub_ws s = '' ''" by (simp only: Cons)
  then show ?thesis by (simp add: clean_text_def strip_def lstrip_def rstrip_def)
qed

lemma parse_created_at_blank:
  "\<forall>c \<in> set s. isspace c \<Longrightarrow> parse_created_at isoformat date_parse now (Some s) = Inr []"
  by (simp add: parse_created_at_def clean_text_whitespace lower_def)

lemma parse_created_at_unrecognized:
  assumes "lower (clean_text text) \<noteq> []"
    and "re_match_relative (strip_posted (lower (clean_text text))) = None"
    and "strip_posted (lower (clean_text text)) \<noteq> ''yesterday''"
    and "date_parse (strip_posted (lower (clean_text text))) = Inl e"
  shows "parse_created_at isoformat date_parse now text = Inr (clean_text text)"
  using assms by (simp add: parse_created_at_def Let_def)


lemma parse_created_at_far_past:
  "parse_created_at iso_example no_date_parse now_example (Some ''Posted 4000000 days ago'')
     = Inl OverflowError"
  by (simp add: parse_created_at_def clean_text_def strip_def lstrip_def rstrip_def
      isspace_def lower_def lower_char_def isupper_def strip_posted_def strip_chars_def
      rstrip_chars_def re_match_relative_def re_digit_def units_def ws_then_def py_int_def
      int_max_str_digits_def digits_value_def digit_val_def timedelta_def delta_micros_def
      datetime_sub_def now_example_def us_per_day_def max_micros_def)

lemma parse_created_at_leading_zeros:
  "parse_created_at iso_example no_date_parse now_example
     (Some (''Posted '' @ replicate 4300 (CHR ''0'') @ ''3 hours ago'')) = Inl ValueError"
proof -
  let ?ds = "replicate 4300 (CHR ''0'') @ ''3''"
  have "parse_created_at iso_example no_date_parse now_example
      (Some (''Posted '' @ ?ds @ '' '' @ ''hours'' @ '' ago'')) = Inl ValueError"
    by (rule parse_created_at_long_number)
      (simp_all add: list_all_iff re_digit_def units_def int_max_str_digits_def)
  then show ?thesis by simp
qed

text \<open>
  Claim C2, as stated, at two inputs of the form \<open>Posted <N> <unit> ago\<close>. On
  \<open>Posted 4000000 days ago\<close> the offset reaches back before the first representable
  datetime, and the call raises \<open>OverflowError\<close> instead of returning a timestamp.
  On \<open>Posted 0...03 hours ago\<close>, with 4300 zeros before the 3, the number has more
  digits than the interpreter converts, and the call raises \<open>ValueError\<close>, although
  three hours before the clock reading is a representable datetime.
\<close>

theorem parse_created_at_out_of_range:
  "parse_created_at iso_example no_date_parse now_example (Some ''Posted 4000000 days ago'')
     = Inl OverflowError
   \<and> parse_created_at iso_example no_date_parse now_example
        (Some (''Posted '' @ replicate 4300 (CHR ''0'') @ ''3 hours ago'')) = Inl ValueError"
  using parse_created_at_far_past parse_created_at_leading_zeros by (rule conjI)

text \<open>
  Claim C2, amended: for a clock reading \<open>now\<close> that is a representable datetime,
  (1) on \<open>Posted <N> <unit> ago\<close>, with \<open>N\<close> a run of at most 4300 digits and the
  unit one of the eight unit words, \<open>parse_created_at\<close> returns the ISO format of
  \<open>now\<close> minus \<open>N\<close> units, provided that instant is not before the first
  representable datetime; (2) on \<open>yesterday\<close> it returns the ISO format of \<open>now\<close>
  minus one day, with the same proviso; (3) on \<open>None\<close> and on text made of
  whitespace only it returns the empty string; (4) on a text that is not empty
  after cleaning, that the relative pattern does not match, that is not
  \<open>yesterday\<close>, and on which the date parser raises, it returns the cleaned
  original text.
\<close>

theorem parse_created_at_spec:
  "(ds \<noteq> [] \<and> list_all re_digit ds \<and> length ds \<le> int_max_str_digits \<and> u \<in> set units
      \<and> digits_value ds * unit_micros u \<le> micros now \<and> micros now < max_micros
    \<longrightarrow> parse_created_at isoformat date_parse now
          (Some (''Posted '' @ ds @ '' '' @ u @ '' ago''))
        = Inr (isoformat (now\<lparr>micros := micros now - digits_value ds * unit_micros u\<rparr>)))
   \<and> (us_per_day \<le> micros now \<and> micros now < max_micros
    \<longrightarrow> parse_created_at isoformat date_parse now (Some ''yesterday'')
        = Inr (isoformat (now\<lparr>micros := micros now - us_per_day\<rparr>)))
   \<and> parse_created_at isoformat date_parse now None = Inr []
   \<and> ((\<forall>c \<in> set s. isspace c)
    \<longrightarrow> parse_created_at isoformat date_parse now (Some s) = Inr [])
   \<and> (lower (clean_text text) \<noteq> []
      \<and> re_match_relative (strip_posted (lower (clean_text text))) = None
      \<and> strip_posted (lower (clean_text text)) \<noteq> ''yesterday''
      \<and> date_parse (strip_posted (lower (clean_text text))) = Inl e
    \<longrightarrow> parse_created_at isoformat date_parse now text = Inr (clean_text text))"
proof (intro conjI impI)
  assume "ds \<noteq> [] \<and> list_all re_digit ds \<and> length ds \<le> int_max_str_digits \<and> u \<in> set units
      \<and> digits_value ds * unit_micros u \<le> micros now \<and> micros now < max_micros"
  then show "parse_created_at isoformat date_parse now
          (Some (''Posted '' @ ds @ '' '' @ u @ '' ago''))
        = Inr (isoformat (now\<lparr>micros := micros now - digits_value ds * unit_micros u\<rparr>))"
    by (intro parse_created_at_relative) simp_all
next
  assume "us_per_day \<le> micros now \<and> micros now < max_micros"
  then show "parse_created_at isoformat date_parse now (Some ''yesterday'')
        = Inr (isoformat (now\<lparr>micros := micros now - us_per_day\<rparr>))"
    by (intro parse_created_at_yesterday) simp_all
next
  show "parse_created_at isoformat date_parse now None = Inr []"
    by (simp add: parse_created_at_def clean_text_def lower_def)
next
  assume "\<forall>c \<in> set s. isspace c"
  then show "parse_created_at isoformat date_parse now (Some s) = Inr []"
    by (rule parse_created_at_blank)
next
  assume "lower (clean_text text) \<noteq> []
      \<and> re_match_relative (strip_posted (lower (clean_text text))) = None
      \<and> strip_posted (lower (clean_text text)) \<noteq> ''yesterday''
      \<and> date_parse (strip_posted (lower (clean_text text))) = Inl e"
  then show "parse_created_at isoformat date_parse now text = Inr (clean_text text)"
    by (intro parse_created_at_unrecognized [where e = e]) simp_all
qed

theorem parse_created_at_spec_witness:
  "parse_created_at iso_example no_date_parse now_example (Some ''Posted 3 hours ago'')
     = Inr (iso_example \<lparr>micros = 63929336400000000, tzinfo = Some UTC\<rparr>)
   \<and> parse_created_at iso_example no_date_parse now_example (Some ''yesterday'')
     = Inr (iso_example \<lparr>micros = 63929260800000000, tzinfo = Some UTC\<rparr>)
   \<and> parse_created_at iso_example no_date_parse now_example (Some [CHR '' '', CHR 0x09]) = Inr []
   \<and> parse_created_at iso_example no_date_parse now_example (Some ''Not  a date'')
     = Inr ''Not a date''"
proof -
  have ct: "clean_text (Some ''Not  a date'') = ''Not a date''"
    by (simp add: clean_text_def strip_def lstrip_def rstrip_def isspace_def)
  have lw: "lower ''Not a date'' = ''not a date''"
    by (simp add: lower_def lower_char_def isupper_def)
  have sp: "strip_posted ''not a date'' = ''not a date''"
    by (simp add: strip_posted_def)
  have nm: "re_match_relative ''not a date'' = None"
    by (simp add: re_match_relative_def re_digit_def)
  have h1: "''3'' \<noteq> [] \<and> list_all re_digit ''3'' \<and> length ''3'' \<le> int_max_str_digits
      \<and> ''hours'' \<in> set units
      \<and> digits_value ''3'' * unit_micros ''hours'' \<le> micros now_example
      \<and> micros now_example < max_micros"
    by (simp add: re_digit_def units_def digits_value_def digit_val_def unit_micros_def
        now_example_def max_micros_def int_max_str_digits_def)
  have h2: "us_per_day \<le> micros now_example \<and> micros now_example < max_micros"
    by (simp add: us_per_day_def now_example_def max_micros_def)
  have h4: "\<forall>c \<in> set [CHR '' '', CHR 0x09]. isspace c"
    by (simp add: isspace_def)
  have h5: "lower (clean_text (Some ''Not  a date'')) \<noteq> []
      \<and> re_match_relative (strip_posted (lower (clean_text (Some ''Not  a date'')))) = None
      \<and> strip_posted (lower (clean_text (Some ''Not  a date''))) \<noteq> ''yesterday''
      \<and> no_date_parse (strip_posted (lower (clean_text (Some ''Not  a date''))))
          = Inl ParserError"
    by (simp add: ct lw sp nm no_date_parse_def)
  note spec = parse_created_at_spec [of "''3''" "''hours''" now_example iso_example
      no_date_parse "[CHR '' '', CHR 0x09]" "Some ''Not  a date''" ParserError]
  from spec h1 have
    "parse_created_at iso_example no_date_parse now_example (Some ''Posted 3 hours ago'')
     = Inr (iso_example (now_example\<lparr>micros := micros now_example
              - digits_value ''3'' * unit_micros ''hours''\<rparr>))"
    by simp
  then have a: "parse_created_at iso_example no_date_parse now_example
       (Some ''Posted 3 hours ago'')
     = Inr (iso_example \<lparr>micros = 63929336400000000, tzinfo = Some UTC\<rparr>)"
    by (simp add: digits_value_def digit_val_def unit_micros_def now_example_def)
  from spec h2 have
    "parse_created_at iso_example no_date_parse now_example (Some ''yesterday'')
     = Inr (iso_example (now_example\<lparr>micros := micros now_example - us_per_day\<rparr>))"
    by blast
  then have b: "parse_created_at iso_example no_date_parse now_example (Some ''yesterday'')
     = Inr (iso_example \<lparr>micros = 63929260800000000, tzinfo = Some UTC\<rparr>)"
    by (simp add: us_per_day_def now_example_def)
  from spec h4 have c:
    "parse_created_at iso_example no_date_parse now_example (Some [CHR '' '', CHR 0x09]) = Inr []"
    by blast
  from spec h5 have
    "parse_created_at iso_example no_date_parse now_example (Some ''Not  a date'')
     = Inr (clean_text (Some ''Not  a date''))"
    by blast
  then have d:
    "parse_created_at iso_example no_date_parse now_example (Some ''Not  a date'')
     = Inr ''Not a date''"
    by (simp only: ct)
  from a b c d show ?thesis by blast
qed

section \<open>\<open>_build_url\<close>\<close>

lemma startswith_page_field:
  "startswith (c # cs) ''{page}'' \<Longrightarrow> c = CHR ''{'' \<and> (\<exists>r. cs = ''page}'' @ r)"
  by (auto simp: startswith_iff)

lemma format_page_field:
  "format_page (CHR ''{'' # ''page}'' @ r) page =
     (case format_page r page of Inl e \<Rightarrow> Inl e | Inr out \<Rightarrow> Inr (str_int page @ out))"
  by simp

lemma format_page_plain:
  "c \<noteq> CHR ''{'' \<Longrightarrow> c \<noteq> CHR ''}'' \<Longrightarrow>
     format_page (c # cs) page =
       (case format_page cs page of Inl e \<Rightarrow> Inl e | Inr out \<Rightarrow> Inr (c # out))"
  by simp

lemma format_page_only_fields:
  "only_page_fields t \<Longrightarrow> format_page t page = Inr (subst_page (str_int page) t)"
proof (induction t rule: only_page_fields.induct)
  case 1
  show ?case by simp
next
  case (2 c cs)
  show ?case
  proof (cases "startswith (c # cs) ''{page}''")
    case True
    then obtain r where c: "c = CHR ''{''" and cs: "cs = ''page}'' @ r"
      using startswith_page_field by blast
    from cs have r: "drop 5 cs = r" by simp
    have "only_page_fields (c # cs) = only_page_fields (drop 5 cs)"
      by (simp only: only_page_fields.simps True if_True)
    with "2.prems" have "only_page_fields (drop 5 cs)" by blast
    with True have "format_page (drop 5 cs) page = Inr (subst_page (str_int page) (drop 5 cs))"
      by (rule "2.IH"(1))
    then have "format_page r page = Inr (subst_page (str_int page) r)"
      by (simp only: r)
    moreover have "subst_page (str_int page) (c # cs) = str_int page @ subst_page (str_int page) r"
      by (simp only: subst_page.simps True if_True r)
    moreover have "format_page (c # cs) page =
        (case format_page r page of Inl e \<Rightarrow> Inl e | Inr out \<Rightarrow> Inr (str_int page @ out))"
      unfolding c cs by (rule format_page_field)
    ultimately show ?thesis by simp
  next
    case False
    have "only_page_fields (c # cs) = (c \<noteq> CHR ''{'' \<and> c \<noteq> CHR ''}'' \<and> only_page_fields cs)"
      by (simp only: only_page_fields.simps False if_False)
    with "2.prems" have c: "c \<noteq> CHR ''{''" "c \<noteq> CHR ''}''" and rest: "only_page_fields cs"
      by blast+
    from False rest have "format_page cs page = Inr (subst_page (str_int page) cs)"
      by (rule "2.IH"(2))
    moreover have "subst_page (str_int page) (c # cs) = c # subst_page (str_int page) cs"
      by (simp only: subst_page.simps False if_False)
    ultimately show ?thesis
      by (simp only: format_page_plain [OF c] sum.case)
  qed
qed

lemma contains_prefix: "contains (sub @ b) sub"
  by (cases "sub @ b") (simp_all, metis startswith_append)

lemma contains_append: "contains (a @ sub @ b) sub"
  by (induction a) (simp_all add: contains_prefix)

lemma partition_head_first:
  "\<forall>k<length base. \<not> startswith (drop k (base @ sep @ rest)) sep
     \<Longrightarrow> partition_head sep (base @ sep @ rest) = base"
proof (induction base)
  case Nil
  show ?case by (cases "sep @ rest") (simp_all, metis startswith_append)
next
  case (Cons b bs)
  from Cons.prems have "\<not> startswith (drop 0 ((b # bs) @ sep @ rest)) sep" by blast
  then have first: "\<not> startswith (b # (bs @ sep @ rest)) sep" by simp
  have "\<forall>k<length bs. \<not> startswith (drop k (bs @ sep @ rest)) sep"
  proof (intro allI impI)
    fix k assume "k < length bs"
    then have "\<not> startswith (drop (Suc k) ((b # bs) @ sep @ rest)) sep"
      using Cons.prems by auto
    then show "\<not> startswith (drop k (bs @ sep @ rest)) sep" by simp
  qed
  then have "partition_head sep (bs @ sep @ rest) = bs" by (rule Cons.IH)
  with first show ?case by simp
qed

text \<open>
  Claim C7, as stated, at three templates: a \<open>page=\<close> parameter followed by another
  parameter (the code drops everything after \<open>page=\<close>); doubled braces around
  \<open>page\<close> (\<open>str.format\<close> reads them as literal braces and substitutes nothing); and
  a second replacement field (\<open>str.format\<close> raises \<open>KeyError\<close>).
\<close>

theorem build_url_differs_from_spec:
  "build_url ''https://u/?page=1&q=x'' 2 = Inr ''https://u/?page=2''
   \<and> spec_build_url ''https://u/?page=1&q=x'' 2 = ''https://u/?page=2&q=x''
   \<and> build_url ''u/{{page}}'' 2 = Inr ''u/{page}''
   \<and> spec_build_url ''u/{{page}}'' 2 = ''u/{2}''
   \<and> build_url ''u/{q}?p={page}'' 2 = Inl KeyError"
proof -
  have n: "str_int 2 = ''2''"
    by (simp add: str_int_def nat_digits.simps digit_char_def)
  show ?thesis
    by (simp add: build_url_def build_url_with_def spec_build_url_def n re_digit_def)
qed

text \<open>
  Claim C7, amended: (1) when the template contains \<open>{page}\<close> and every brace in it
  belongs to an occurrence of \<open>{page}\<close>, the URL is the template with every
  \<open>{page}\<close> replaced by \<open>n\<close>; (2) otherwise, when the template contains \<open>?\<close> and
  the text \<open>page=\<close>, the URL is the template up to the first occurrence of
  \<open>page=\<close>, followed by \<open>page=<n>\<close>, and what followed that occurrence is
  dropped; (3) when it contains \<open>?\<close> but not \<open>page=\<close>, \<open>&page=<n>\<close> is appended;
  (4) when it contains neither \<open>{page}\<close> nor \<open>?\<close>, \<open>?page=<n>\<close> is appended.
\<close>

theorem build_url_spec:
  "(contains t ''{page}'' \<and> only_page_fields t
      \<longrightarrow> build_url t n = Inr (subst_page (str_int n) t))
   \<and> (\<not> contains t ''{page}'' \<and> contains t ''?'' \<and> t = base @ ''page='' @ rest
        \<and> (\<forall>k<length base. \<not> startswith (drop k t) ''page='')
      \<longrightarrow> build_url t n = Inr (base @ ''page='' @ str_int n))
   \<and> (\<not> contains t ''{page}'' \<and> contains t ''?'' \<and> \<not> contains t ''page=''
      \<longrightarrow> build_url t n = Inr (t @ ''&page='' @ str_int n))
   \<and> (\<not> contains t ''{page}'' \<and> \<not> contains t ''?''
      \<longrightarrow> build_url t n = Inr (t @ ''?page='' @ str_int n))"
proof (intro conjI impI)
  assume h: "contains t ''{page}'' \<and> only_page_fields t"
  then have "format_page t n = Inr (subst_page (str_int n) t)"
    by (intro format_page_only_fields) blast
  with h show "build_url t n = Inr (subst_page (str_int n) t)"
    unfolding build_url_def build_url_with_def by (simp only: if_True)
next
  assume h: "\<not> contains t ''{page}'' \<and> contains t ''?'' \<and> t = base @ ''page='' @ rest
        \<and> (\<forall>k<length base. \<not> startswith (drop k t) ''page='')"
  then have t: "t = base @ ''page='' @ rest" by blast
  from h have "\<forall>k<length base. \<not> startswith (drop k (base @ ''page='' @ rest)) ''page=''"
    by blast
  then have "partition_head ''page='' (base @ ''page='' @ rest) = base"
    by (rule partition_head_first)
  then have ph: "partition_head ''page='' t = base" by (simp only: t)
  have "contains (base @ ''page='' @ rest) ''page=''" by (rule contains_append)
  then have c1: "contains t ''page=''" by (simp only: t)
  from h have c0: "\<not> contains t ''{page}''" and c2: "contains t ''?''" by blast+
  show "build_url t n = Inr (base @ ''page='' @ str_int n)"
    unfolding build_url_def build_url_with_def by (simp only: c0 c1 c2 ph if_True if_False)
next
  assume "\<not> contains t ''{page}'' \<and> contains t ''?'' \<and> \<not> contains t ''page=''"
  then show "build_url t n = Inr (t @ ''&page='' @ str_int n)"
    unfolding build_url_def build_url_with_def by (simp only: if_True if_False)
next
  assume "\<not> contains t ''{page}'' \<and> \<not> contains t ''?''"
  then show "build_url t n = Inr (t @ ''?page='' @ str_int n)"
    unfolding build_url_def build_url_with_def by (simp only: if_True if_False)
qed


theorem build_url_spec_witness:
  "build_url ''https://u/?q=a&page={page}'' 12 = Inr ''https://u/?q=a&page=12''
   \<and> build_url ''https://u/?page=1&q=x'' 2 = Inr ''https://u/?page=2''
   \<and> build_url ''u/x?q=1'' 3 = Inr ''u/x?q=1&page=3''
   \<and> build_url ''u/x'' 3 = Inr ''u/x?page=3''"
proof -
  have n12: "str_int 12 = ''12''" and n2: "str_int 2 = ''2''" and n3: "str_int 3 = ''3''"
    by (simp_all add: str_int_def nat_digits.simps digit_char_def)
  have h1: "contains ''https://u/?q=a&page={page}'' ''{page}''
      \<and> only_page_fields ''https://u/?q=a&page={page}''"
    by simp
  have h2: "\<not> contains ''https://u/?page=1&q=x'' ''{page}''
      \<and> contains ''https://u/?page=1&q=x'' ''?''
      \<and> ''https://u/?page=1&q=x'' = ''https://u/?'' @ ''page='' @ ''1&q=x''
      \<and> (\<forall>k<length ''https://u/?''. \<not> startswith (drop k ''https://u/?page=1&q=x'') ''page='')"
    by (simp add: All_less_Suc)
  have h3: "\<not> contains ''u/x?q=1'' ''{page}'' \<and> contains ''u/x?q=1'' ''?''
      \<and> \<not> contains ''u/x?q=1'' ''page=''"
    by simp
  have h4: "\<not> contains ''u/x'' ''{page}'' \<and> \<not> contains ''u/x'' ''?''"
    by simp
  from h1 build_url_spec [of "''https://u/?q=a&page={page}''" 12]
  have "build_url ''https://u/?q=a&page={page}'' 12
      = Inr (subst_page (str_int 12) ''https://u/?q=a&page={page}'')"
    by blast
  then have a: "build_url ''https://u/?q=a&page={page}'' 12 = Inr ''https://u/?q=a&page=12''"
    by (simp add: n12)
  from h2 build_url_spec [of "''https://u/?page=1&q=x''" 2 "''https://u/?''" "''1&q=x''"]
  have "build_url ''https://u/?page=1&q=x'' 2 = Inr (''https://u/?'' @ ''page='' @ str_int 2)"
    by blast
  then have b: "build_url ''https://u/?page=1&q=x'' 2 = Inr ''https://u/?page=2''"
    by (simp add: n2)
  from h3 build_url_spec [of "''u/x?q=1''" 3]
  have "build_url ''u/x?q=1'' 3 = Inr (''u/x?q=1'' @ ''&page='' @ str_int 3)"
    by blast
  then have c: "build_url ''u/x?q=1'' 3 = Inr ''u/x?q=1&page=3''"
    by (simp add: n3)
  from h4 build_url_spec [of "''u/x''" 3]
  have "build_url ''u/x'' 3 = Inr (''u/x'' @ ''?page='' @ str_int 3)"
    by blast
  then have d: "build_url ''u/x'' 3 = Inr ''u/x?page=3''"
    by (simp add: n3)
  from a b c d show ?thesis by blast
qed

section \<open>\<open>_parse_single_job\<close> and \<open>parse_jobs_from_html\<close>\<close>

lemma truthy_the: "truthy v \<Longrightarrow> the v \<noteq> []"
  by (cases v) (simp_all add: truthy_def)

lemma parse_single_job_raises:
  "parse_created_at isoformat date_parse now (Some (created_text_of c)) = Inl e
     \<Longrightarrow> parse_single_job isoformat date_parse now c = Inl e"
  by (simp add: parse_single_job_def Let_def)

lemma parse_single_job_reviews_raise:
  "parse_created_at isoformat date_parse now (Some (created_text_of c)) = Inr created_at
     \<Longrightarrow> parse_client_reviews (Some (card_get_text c)) = Inl e
     \<Longrightarrow> parse_single_job isoformat date_parse now c = Inl e"
  by (simp add: parse_single_job_def Let_def)

lemma parse_single_job_empty:
  assumes "parse_created_at isoformat date_parse now (Some (created_text_of c)) = Inr created_at"
    and "parse_client_reviews (Some (card_get_text c)) = Inr reviews"
    and "\<not> has_identity c"
  shows "parse_single_job isoformat date_parse now c = Inr None"
  using assms by (simp add: parse_single_job_def Let_def has_identity_def)

lemma parse_single_job_record:
  assumes "parse_created_at isoformat date_parse now (Some (created_text_of c)) = Inr created_at"
    and "parse_client_reviews (Some (card_get_text c)) = Inr reviews"
    and "has_identity c"
  shows "\<exists>job. parse_single_job isoformat date_parse now c = Inr (Some job)"
  using assms by (simp add: parse_single_job_def Let_def has_identity_def)

lemma parse_single_job_fields:
  assumes "parse_single_job isoformat date_parse now c = Inr (Some job)"
  shows "has_identity c
     \<and> jobId job = (if truthy (resolve_job_id c) then the (resolve_job_id c) else [])
     \<and> title job = title_of c \<and> description job = description_of c"
proof (cases "parse_created_at isoformat date_parse now (Some (created_text_of c))")
  case (Inl e)
  with assms show ?thesis by (simp add: parse_single_job_raises)
next
  case created: (Inr created_at)
  show ?thesis
  proof (cases "parse_client_reviews (Some (card_get_text c))")
    case (Inl e)
    with created assms show ?thesis by (simp add: parse_single_job_reviews_raise)
  next
    case (Inr n)
    show ?thesis
    proof (cases "has_identity c")
      case False
      with created Inr assms show ?thesis by (simp add: parse_single_job_empty)
    next
      case True
      with created Inr assms show ?thesis
        by (auto simp: parse_single_job_def Let_def has_identity_def)
    qed
  qed
qed

lemma parse_single_job_nonempty:
  assumes "parse_single_job isoformat date_parse now c = Inr (Some job)"
  shows "jobId job \<noteq> [] \<or> title job \<noteq> [] \<or> description job \<noteq> []"
proof -
  note f = parse_single_job_fields [OF assms]
  then have "has_identity c" by blast
  then show ?thesis
    using f truthy_the [of "resolve_job_id c"] by (auto simp: has_identity_def)
qed

lemma parse_cards_nonempty:
  "j \<in> set (parse_cards isoformat date_parse clock i cards)
     \<Longrightarrow> jobId j \<noteq> [] \<or> title j \<noteq> [] \<or> description j \<noteq> []"
proof (induction cards arbitrary: i)
  case Nil
  then show ?case by simp
next
  case (Cons c cards)
  show ?case
  proof (cases "parse_single_job isoformat date_parse (clock i) c")
    case (Inl e)
    with Cons show ?thesis by simp
  next
    case (Inr r)
    show ?thesis
    proof (cases r)
      case None
      with Inr Cons show ?thesis by simp
    next
      case (Some job)
      with Inr Cons.prems have "j = job \<or> j \<in> set (parse_cards isoformat date_parse clock (Suc i) cards)"
        by simp
      then show ?thesis
      proof
        assume "j = job"
        with Inr Some show ?thesis using parse_single_job_nonempty by blast
      next
        assume "j \<in> set (parse_cards isoformat date_parse clock (Suc i) cards)"
        then show ?thesis by (rule Cons.IH)
      qed
    qed
  qed
qed

lemma parse_jobs_from_html_nonempty:
  "j \<in> set (snd (parse_jobs_from_html soup_select isoformat date_parse clock html))
     \<Longrightarrow> jobId j \<noteq> [] \<or> title j \<noteq> [] \<or> description j \<noteq> []"
  by (cases "html = []")
    (auto simp: parse_jobs_from_html_def split_def Let_def dest: parse_cards_nonempty)

subsection \<open>The example cards\<close>

lemma example_card_created [simp]: "created_text_of (example_card ttl posted) = posted"
  by (simp add: created_text_of_def example_card_def text_element_def)

lemma example_card_title [simp]: "title_of (example_card ttl posted) = clean_text (Some ttl)"
  by (simp add: title_of_def example_card_def text_element_def clean_el_def clean_text_def
      strip_def lstrip_def rstrip_def)

lemma example_card_description [simp]: "description_of (example_card ttl posted) = []"
  by (simp add: description_of_def example_card_def clean_el_def)

lemma example_card_job_id [simp]: "resolve_job_id (example_card ttl posted) = None"
  by (simp add: resolve_job_id_def example_card_def truthy_def)

lemma example_card_identity:
  "has_identity (example_card ttl posted) = (clean_text (Some ttl) \<noteq> [])"
  by (simp add: has_identity_def truthy_def)

lemma clean_build_a_bot [simp]: "clean_text (Some ''Build a bot'') = ''Build a bot''"
  by (simp add: clean_text_fixed_iff no_edge_ws_def isspace_def)

lemma clean_fix_a_bug [simp]: "clean_text (Some ''Fix a bug'') = ''Fix a bug''"
  by (simp add: clean_text_fixed_iff no_edge_ws_def isspace_def)

lemma clean_empty [simp]: "clean_text (Some []) = []"
  by (simp add: clean_text_def strip_def lstrip_def rstrip_def)

lemma parse_created_at_three_hours:
  "parse_created_at iso_example no_date_parse now_example (Some ''Posted 3 hours ago'')
     = Inr (iso_example \<lparr>micros = 63929336400000000, tzinfo = Some UTC\<rparr>)"
proof -
  have "parse_created_at iso_example no_date_parse now_example
          (Some (''Posted '' @ ''3'' @ '' '' @ ''hours'' @ '' ago''))
        = Inr (iso_example (now_example\<lparr>micros := micros now_example
                  - digits_value ''3'' * unit_micros ''hours''\<rparr>))"
    by (rule parse_created_at_relative)
      (simp_all add: re_digit_def units_def digits_value_def digit_val_def unit_micros_def
        now_example_def max_micros_def int_max_str_digits_def)
  then show ?thesis
    by (simp add: digits_value_def digit_val_def unit_micros_def now_example_def)
qed

lemma example_card_long_number:
  "has_identity (example_card (replicate 4301 (CHR ''9'')) [])
   \<and> parse_created_at iso_example no_date_parse now_example
        (Some (created_text_of (example_card (replicate 4301 (CHR ''9'')) []))) = Inr []
   \<and> parse_single_job iso_example no_date_parse now_example
        (example_card (replicate 4301 (CHR ''9'')) []) = Inl ValueError"
proof -
  let ?ds = "replicate 4301 (CHR ''9'')"
  have ne: "?ds \<noteq> []" by simp
  have d: "list_all re_digit ?ds" by (rule replicate_nines)
  have long: "int_max_str_digits < length ?ds" by (simp add: int_max_str_digits_def)
  have id: "has_identity (example_card ?ds [])"
    by (simp only: example_card_identity clean_text_digits(1) [OF ne d]) simp
  have created: "parse_created_at iso_example no_date_parse now_example
      (Some (created_text_of (example_card ?ds []))) = Inr []"
    by (simp add: parse_created_at_blank)
  have "card_get_text (example_card ?ds []) = ?ds @ '' ''"
    by (simp add: example_card_def)
  then have "parse_client_reviews (Some (card_get_text (example_card ?ds []))) = Inl ValueError"
    by (simp only: parse_client_reviews_long_run(1) [OF ne d long])
  with created have "parse_single_job iso_example no_date_parse now_example
      (example_card ?ds []) = Inl ValueError"
    by (rule parse_single_job_reviews_raise)
  with id created show ?thesis by blast
qed

text \<open>
  Claim C1, as stated, at three cards. Two have the posted-on text
  \<open>Posted 4000000 days ago\<close>: one has a title, yet no record is emitted; the other
  has none of the three fields, yet the result is not the no-record signal; in
  both the conversion of the posted-on text raises \<open>OverflowError\<close>. The third has
  a title of 4301 nines and an empty posted-on text: the conversion of the posted-on
  text returns, the extraction of the review count from the card text raises
  \<open>ValueError\<close>, and no record is emitted. Each exception is raised before the
  emptiness test is reached.
\<close>

theorem parse_single_job_extraction_raises:
  "has_identity (example_card ''Build a bot'' ''Posted 4000000 days ago'')
   \<and> parse_single_job iso_example no_date_parse now_example
        (example_card ''Build a bot'' ''Posted 4000000 days ago'') = Inl OverflowError
   \<and> \<not> has_identity (example_card [] ''Posted 4000000 days ago'')
   \<and> parse_single_job iso_example no_date_parse now_example
        (example_card [] ''Posted 4000000 days ago'') = Inl OverflowError
   \<and> has_identity (example_card (replicate 4301 (CHR ''9'')) [])
   \<and> parse_created_at iso_example no_date_parse now_example
        (Some (created_text_of (example_card (replicate 4301 (CHR ''9'')) []))) = Inr []
   \<and> parse_single_job iso_example no_date_parse now_example
        (example_card (replicate 4301 (CHR ''9'')) []) = Inl ValueError"
  using example_card_long_number
  by (simp add: example_card_identity parse_single_job_raises parse_created_at_far_past)

text \<open>
  Claim C1, amended: for every card on which neither the conversion of the
  posted-on text nor the extraction of the review count raises, the record
  extractor returns a record if and only if at least one of the resolved fields
  jobId, title, description is non-empty, and returns the no-record signal when all
  three are empty. A returned record carries the resolved title and description,
  the resolved id or the empty string, and at least one of the three is non-empty;
  this holds of every record returned by the page parser.
\<close>

theorem parse_single_job_emptiness:
  "(parse_created_at isoformat date_parse now (Some (created_text_of c)) = Inr created_at
      \<and> parse_client_reviews (Some (card_get_text c)) = Inr reviews
      \<longrightarrow> ((\<exists>job. parse_single_job isoformat date_parse now c = Inr (Some job))
             \<longleftrightarrow> has_identity c)
          \<and> (\<not> has_identity c \<longrightarrow> parse_single_job isoformat date_parse now c = Inr None))
   \<and> (parse_single_job isoformat date_parse now c = Inr (Some job)
      \<longrightarrow> has_identity c
          \<and> jobId job = (if truthy (resolve_job_id c) then the (resolve_job_id c) else [])
          \<and> title job = title_of c \<and> description job = description_of c
          \<and> (jobId job \<noteq> [] \<or> title job \<noteq> [] \<or> description job \<noteq> []))
   \<and> (\<forall>j \<in> set (snd (parse_jobs_from_html soup_select isoformat date_parse clock html)).
         jobId j \<noteq> [] \<or> title j \<noteq> [] \<or> description j \<noteq> [])"
proof (intro conjI impI ballI)
  assume ok: "parse_created_at isoformat date_parse now (Some (created_text_of c)) = Inr created_at
      \<and> parse_client_reviews (Some (card_get_text c)) = Inr reviews"
  then show "(\<exists>job. parse_single_job isoformat date_parse now c = Inr (Some job))
      \<longleftrightarrow> has_identity c"
    using parse_single_job_record parse_single_job_fields by blast
next
  assume "parse_created_at isoformat date_parse now (Some (created_text_of c)) = Inr created_at
      \<and> parse_client_reviews (Some (card_get_text c)) = Inr reviews"
    and "\<not> has_identity c"
  then show "parse_single_job isoformat date_parse now c = Inr None"
    using parse_single_job_empty by blast
next
  assume r: "parse_single_job isoformat date_parse now c = Inr (Some job)"
  from parse_single_job_fields [OF r] show "has_identity c" by blast
  from parse_single_job_fields [OF r]
  show "jobId job = (if truthy (resolve_job_id c) then the (resolve_job_id c) else [])" by blast
  from parse_single_job_fields [OF r] show "title job = title_of c" by blast
  from parse_single_job_fields [OF r] show "description job = description_of c" by blast
  from r show "jobId job \<noteq> [] \<or> title job \<noteq> [] \<or> description job \<noteq> []"
    by (rule parse_single_job_nonempty)
next
  fix j
  assume "j \<in> set (snd (parse_jobs_from_html soup_select isoformat date_parse clock html))"
  then show "jobId j \<noteq> [] \<or> title j \<noteq> [] \<or> description j \<noteq> []"
    by (rule parse_jobs_from_html_nonempty)
qed

lemma reviews_posted_three_hours:
  "parse_client_reviews (Some '' Posted 3 hours ago'') = Inr 3"
  "parse_client_reviews (Some ''Build a bot Posted 3 hours ago'') = Inr 3"
  "parse_client_reviews (Some ''Fix a bug Posted 3 hours ago'') = Inr 3"
proof -
  have l1: "lower (clean_text (Some '' Posted 3 hours ago'')) = ''posted 3 hours ago''"
    and l2: "lower (clean_text (Some ''Build a bot Posted 3 hours ago''))
      = ''build a bot posted 3 hours ago''"
    and l3: "lower (clean_text (Some ''Fix a bug Posted 3 hours ago''))
      = ''fix a bug posted 3 hours ago''"
    by (simp_all add: clean_text_def strip_def lstrip_def rstrip_def isspace_def lower_def
        lower_char_def isupper_def)
  have s1: "re_search_reviews ''posted 3 hours ago'' = None"
    and s2: "re_search_reviews ''build a bot posted 3 hours ago'' = None"
    and s3: "re_search_reviews ''fix a bug posted 3 hours ago'' = None"
    by (simp_all add: match_reviews_at_def re_digit_def ws_then_def isspace_def)
  have f1: "reviews_fallback ''posted 3 hours ago'' = Inr 3"
    and f2: "reviews_fallback ''build a bot posted 3 hours ago'' = Inr 3"
    and f3: "reviews_fallback ''fix a bug posted 3 hours ago'' = Inr 3"
    by (simp_all add: reviews_fallback_def re_digit_def str_isdigit_def py_int_def
        int_max_str_digits_def strip_def lstrip_def rstrip_def isspace_def digits_value_def
        digit_val_def)
  show "parse_client_reviews (Some '' Posted 3 hours ago'') = Inr 3"
    unfolding parse_client_reviews_def l1 Let_def by (simp only: s1 option.case f1)
  show "parse_client_reviews (Some ''Build a bot Posted 3 hours ago'') = Inr 3"
    unfolding parse_client_reviews_def l2 Let_def by (simp only: s2 option.case f2)
  show "parse_client_reviews (Some ''Fix a bug Posted 3 hours ago'') = Inr 3"
    unfolding parse_client_reviews_def l3 Let_def by (simp only: s3 option.case f3)
qed

lemma example_card_record:
  "parse_single_job iso_example no_date_parse now_example
     (example_card ''Build a bot'' ''Posted 3 hours ago'') = Inr (Some example_job)"
proof -
  let ?text = "''Build a bot Posted 3 hours ago''"
  have shown: "card_get_text (example_card ''Build a bot'' ''Posted 3 hours ago'') = ?text"
    by (simp add: example_card_def)
  have low: "lower (clean_text (Some ?text)) = ''build a bot posted 3 hours ago''"
    by (simp add: clean_text_def strip_def lstrip_def rstrip_def isspace_def lower_def
        lower_char_def isupper_def)
  have rev: "parse_client_reviews (Some ?text) = Inr 3"
    by (rule reviews_posted_three_hours)
  have jt: "parse_job_type (Some ?text) = []"
    by (simp add: parse_job_type_def low)
  have pv: "\<not> contains (lower ?text) ''payment verified''"
    by (simp add: lower_def lower_char_def isupper_def)
  have sel: \<open>\<And>s. s \<noteq> ''[data-test="job-title-link"], h4, h3, a''
      \<Longrightarrow> s \<noteq> ''[data-test="job-posted-on"]''
      \<Longrightarrow> card_select_one (example_card ''Build a bot'' ''Posted 3 hours ago'') s = None\<close>
    by (simp add: example_card_def)
  have none: "clean_el None = []" by (simp add: clean_el_def)
  have sk: "card_select (example_card ''Build a bot'' ''Posted 3 hours ago'') = (\<lambda>s. [])"
    by (simp add: example_card_def)
  show ?thesis
    unfolding parse_single_job_def Let_def
    by (simp add: parse_created_at_three_hours shown rev jt pv sel none sk truthy_def
        parse_budget_def parse_client_spent_def parse_skills_list_def example_job_def)
qed

theorem parse_single_job_emptiness_witness:
  "parse_single_job iso_example no_date_parse now_example
     (example_card ''Build a bot'' ''Posted 3 hours ago'') = Inr (Some example_job)
   \<and> has_identity (example_card ''Build a bot'' ''Posted 3 hours ago'')
   \<and> title example_job = ''Build a bot'' \<and> jobId example_job = []
   \<and> \<not> has_identity (example_card [] ''Posted 3 hours ago'')
   \<and> parse_single_job iso_example no_date_parse now_example
        (example_card [] ''Posted 3 hours ago'') = Inr None
   \<and> snd (parse_jobs_from_html
            (example_soup [example_card ''Build a bot'' ''Posted 3 hours ago''])
            iso_example no_date_parse clock_example ''<html>'') = [example_job]
   \<and> description example_job = []"
proof -
  let ?good = "example_card ''Build a bot'' ''Posted 3 hours ago''"
  let ?blank = "example_card [] ''Posted 3 hours ago''"
  let ?made = "\<lparr>micros = 63929336400000000, tzinfo = Some UTC\<rparr>"
  have ca: "parse_created_at iso_example no_date_parse now_example
      (Some (created_text_of ?good)) = Inr (iso_example ?made)"
    by (simp add: parse_created_at_three_hours)
  have cb: "parse_created_at iso_example no_date_parse now_example
      (Some (created_text_of ?blank)) = Inr (iso_example ?made)"
    by (simp add: parse_created_at_three_hours)
  have nb: "\<not> has_identity ?blank" by (simp add: example_card_identity)
  have rb: "parse_client_reviews (Some (card_get_text ?blank)) = Inr 3"
    by (simp add: example_card_def reviews_posted_three_hours)
  have page: "snd (parse_jobs_from_html (example_soup [?good]) iso_example no_date_parse
      clock_example ''<html>'') = [example_job]"
    by (simp add: parse_jobs_from_html_def select_job_cards_def example_soup_def
        clock_example_def example_card_record)
  note good = parse_single_job_emptiness [of iso_example no_date_parse now_example ?good
      "iso_example ?made" 3 example_job "example_soup [?good]" clock_example "''<html>''"]
  note blank = parse_single_job_emptiness [of iso_example no_date_parse now_example ?blank
      "iso_example ?made" 3 example_job "example_soup [?good]" clock_example "''<html>''"]
  from good example_card_record have fields: "has_identity ?good
      \<and> title example_job = title_of ?good
      \<and> jobId example_job = (if truthy (resolve_job_id ?good) then the (resolve_job_id ?good) else [])"
    by blast
  then have g: "has_identity ?good \<and> title example_job = ''Build a bot'' \<and> jobId example_job = []"
    by (simp add: truthy_def)
  from blank cb rb nb
  have b: "parse_single_job iso_example no_date_parse now_example ?blank = Inr None"
    by blast
  from good have "\<forall>j \<in> set (snd (parse_jobs_from_html (example_soup [?good]) iso_example
      no_date_parse clock_example ''<html>'')). jobId j \<noteq> [] \<or> title j \<noteq> [] \<or> description j \<noteq> []"
    by blast
  then have "jobId example_job \<noteq> [] \<or> title example_job \<noteq> [] \<or> description example_job \<noteq> []"
    by (simp add: page)
  with g have descr: "description example_job = []"
    by (simp add: example_job_def)
  from example_card_record g nb b page descr show ?thesis by blast
qed

section \<open>Isolation of cards in \<open>parse_jobs_from_html\<close>\<close>

lemma parse_cards_append:
  "parse_cards isoformat date_parse clock i (cs @ cs')
     = parse_cards isoformat date_parse clock i cs
       @ parse_cards isoformat date_parse clock (i + length cs) cs'"
  by (induction cs arbitrary: i) (simp_all split: sum.splits option.splits)

lemma parse_jobs_from_html_cards:
  "html \<noteq> [] \<Longrightarrow>
     snd (parse_jobs_from_html soup_select isoformat date_parse clock html)
       = parse_cards isoformat date_parse clock 0 (snd (select_job_cards soup_select html))"
  by (simp add: parse_jobs_from_html_def split_def Let_def)

lemma parse_jobs_from_html_skip:
  assumes "html \<noteq> []" and "snd (select_job_cards soup_select html) = cs @ c # cs'"
    and "parse_single_job isoformat date_parse (clock (length cs)) c = Inl e"
  shows "snd (parse_jobs_from_html soup_select isoformat date_parse clock html)
     = parse_cards isoformat date_parse clock 0 cs
       @ parse_cards isoformat date_parse clock (Suc (length cs)) cs'"
  using assms by (simp add: parse_jobs_from_html_cards parse_cards_append)

lemma parse_jobs_from_html_keep:
  assumes "html \<noteq> []" and "snd (select_job_cards soup_select html) = cs @ c # cs'"
    and "parse_single_job isoformat date_parse (clock (length cs)) c = Inr (Some job)"
  shows "snd (parse_jobs_from_html soup_select isoformat date_parse clock html)
     = parse_cards isoformat date_parse clock 0 cs
       @ job # parse_cards isoformat date_parse clock (Suc (length cs)) cs'"
  using assms by (simp add: parse_jobs_from_html_cards parse_cards_append)

text \<open>
  Claim C5: on empty input the page parser returns the empty list and invokes no
  selector. On any other input, a card whose extraction raises is skipped: the
  result is the records of the cards before it followed by the records of the cards
  after it; and a card that yields a record contributes exactly that record. The
  result is a list in every case, and no error of a card reaches the caller.
\<close>

theorem parse_jobs_from_html_isolation:
  "parse_jobs_from_html soup_select isoformat date_parse clock [] = ([], [])
   \<and> (html \<noteq> [] \<and> snd (select_job_cards soup_select html) = cs @ c # cs'
        \<and> parse_single_job isoformat date_parse (clock (length cs)) c = Inl e
      \<longrightarrow> snd (parse_jobs_from_html soup_select isoformat date_parse clock html)
            = parse_cards isoformat date_parse clock 0 cs
              @ parse_cards isoformat date_parse clock (Suc (length cs)) cs')
   \<and> (html \<noteq> [] \<and> snd (select_job_cards soup_select html) = cs @ c # cs'
        \<and> parse_single_job isoformat date_parse (clock (length cs)) c = Inr (Some job)
      \<longrightarrow> snd (parse_jobs_from_html soup_select isoformat date_parse clock html)
            = parse_cards isoformat date_parse clock 0 cs
              @ job # parse_cards isoformat date_parse clock (Suc (length cs)) cs')"
proof (intro conjI impI)
  show "parse_jobs_from_html soup_select isoformat date_parse clock [] = ([], [])"
    by (simp add: parse_jobs_from_html_def)
next
  assume "html \<noteq> [] \<and> snd (select_job_cards soup_select html) = cs @ c # cs'
        \<and> parse_single_job isoformat date_parse (clock (length cs)) c = Inl e"
  then show "snd (parse_jobs_from_html soup_select isoformat date_parse clock html)
            = parse_cards isoformat date_parse clock 0 cs
              @ parse_cards isoformat date_parse clock (Suc (length cs)) cs'"
    using parse_jobs_from_html_skip by blast
next
  assume "html \<noteq> [] \<and> snd (select_job_cards soup_select html) = cs @ c # cs'
        \<and> parse_single_job isoformat date_parse (clock (length cs)) c = Inr (Some job)"
  then show "snd (parse_jobs_from_html soup_select isoformat date_parse clock html)
            = parse_cards isoformat date_parse clock 0 cs
              @ job # parse_cards isoformat date_parse clock (Suc (length cs)) cs'"
    using parse_jobs_from_html_keep by blast
qed

lemma example_card_fix_a_bug:
  "\<exists>job. parse_single_job iso_example no_date_parse now_example
       (example_card ''Fix a bug'' ''Posted 3 hours ago'') = Inr (Some job)
     \<and> title job = ''Fix a bug''"
proof -
  let ?c = "example_card ''Fix a bug'' ''Posted 3 hours ago''"
  have "parse_created_at iso_example no_date_parse now_example (Some (created_text_of ?c))
      = Inr (iso_example \<lparr>micros = 63929336400000000, tzinfo = Some UTC\<rparr>)"
    by (simp add: parse_created_at_three_hours)
  moreover have "parse_client_reviews (Some (card_get_text ?c)) = Inr 3"
    by (simp add: example_card_def reviews_posted_three_hours)
  moreover have "has_identity ?c" by (simp add: example_card_identity)
  ultimately obtain job where
    job: "parse_single_job iso_example no_date_parse now_example ?c = Inr (Some job)"
    using parse_single_job_record by blast
  from parse_single_job_fields [OF job] have "title job = ''Fix a bug''" by simp
  with job show ?thesis by blast
qed

lemma example_card_bad:
  "parse_single_job iso_example no_date_parse now_example
     (example_card ''Build a bot'' ''Posted 4000000 days ago'') = Inl OverflowError"
  by (simp add: parse_single_job_raises parse_created_at_far_past)

theorem parse_jobs_from_html_isolation_witness:
  "parse_single_job iso_example no_date_parse (clock_example 1)
     (example_card ''Build a bot'' ''Posted 4000000 days ago'') = Inl OverflowError
   \<and> map title (snd (parse_jobs_from_html
        (example_soup [example_card ''Build a bot'' ''Posted 3 hours ago'',
                       example_card ''Build a bot'' ''Posted 4000000 days ago'',
                       example_card ''Fix a bug'' ''Posted 3 hours ago''])
        iso_example no_date_parse clock_example ''<html>''))
      = [''Build a bot'', ''Fix a bug'']
   \<and> parse_jobs_from_html
        (example_soup [example_card ''Build a bot'' ''Posted 3 hours ago''])
        iso_example no_date_parse clock_example [] = ([], [])"
proof -
  let ?good = "example_card ''Build a bot'' ''Posted 3 hours ago''"
  let ?bad = "example_card ''Build a bot'' ''Posted 4000000 days ago''"
  let ?fix = "example_card ''Fix a bug'' ''Posted 3 hours ago''"
  let ?soup = "example_soup [?good, ?bad, ?fix]"
  have h1: "''<html>'' \<noteq> []" by simp
  have h2: "snd (select_job_cards ?soup ''<html>'') = [?good] @ ?bad # [?fix]"
    by (simp add: select_job_cards_def example_soup_def)
  have h3: "parse_single_job iso_example no_date_parse (clock_example (length [?good])) ?bad
      = Inl OverflowError"
    by (simp add: clock_example_def example_card_bad)
  from parse_jobs_from_html_isolation [of ?soup iso_example no_date_parse clock_example
      "''<html>''" "[?good]" ?bad "[?fix]" OverflowError] h1 h2 h3
  have "snd (parse_jobs_from_html ?soup iso_example no_date_parse clock_example ''<html>'')
      = parse_cards iso_example no_date_parse clock_example 0 [?good]
        @ parse_cards iso_example no_date_parse clock_example (Suc (length [?good])) [?fix]"
    by blast
  moreover have "parse_cards iso_example no_date_parse clock_example 0 [?good] = [example_job]"
    by (simp add: clock_example_def example_card_record)
  moreover obtain job where
    "parse_single_job iso_example no_date_parse now_example ?fix = Inr (Some job)"
    and "title job = ''Fix a bug''"
    using example_card_fix_a_bug by blast
  then have "map title (parse_cards iso_example no_date_parse clock_example
      (Suc (length [?good])) [?fix]) = [''Fix a bug'']"
    by (simp add: clock_example_def)
  ultimately have titles: "map title (snd (parse_jobs_from_html ?soup iso_example
      no_date_parse clock_example ''<html>'')) = [''Build a bot'', ''Fix a bug'']"
    by (simp add: example_job_def)
  from parse_jobs_from_html_isolation [of "example_soup [?good]" iso_example no_date_parse
      clock_example]
  have empty: "parse_jobs_from_html (example_soup [?good]) iso_example no_date_parse
      clock_example [] = ([], [])"
    by blast
  from h3 titles empty show ?thesis by simp
qed

section \<open>The cap in \<open>scrape\<close>\<close>

lemma append_up_to_take:
  "int (length jobs) < max_items \<Longrightarrow>
     append_up_to max_items jobs page_jobs
       = jobs @ take (nat (max_items - int (length jobs))) page_jobs"
proof (induction page_jobs arbitrary: jobs)
  case Nil
  show ?case by simp
next
  case (Cons j page_jobs)
  from Cons.prems obtain k where k: "nat (max_items - int (length jobs)) = Suc k"
    by (cases "nat (max_items - int (length jobs))") auto
  show ?case
  proof (cases "max_items \<le> int (length (jobs @ [j]))")
    case True
    with Cons.prems have "max_items = int (length jobs) + 1" by simp
    with k have "k = 0" by simp
    with True k show ?thesis by simp
  next
    case False
    then have "int (length (jobs @ [j])) < max_items" by simp
    then have "append_up_to max_items (jobs @ [j]) page_jobs
        = (jobs @ [j]) @ take (nat (max_items - int (length (jobs @ [j])))) page_jobs"
      by (rule Cons.IH)
    moreover have "nat (max_items - int (length (jobs @ [j]))) = k"
      using k by simp
    ultimately show ?thesis using False k by simp
  qed
qed

lemma append_up_to_length:
  assumes "int (length jobs) < max_items"
  shows "int (length (append_up_to max_items jobs page_jobs)) \<le> max_items"
proof -
  have "length (take (nat (max_items - int (length jobs))) page_jobs)
      \<le> nat (max_items - int (length jobs))"
    by simp
  with assms show ?thesis by (simp add: append_up_to_take)
qed

lemma scrape_pages_stop:
  "max_items \<le> int (length jobs) \<Longrightarrow>
     scrape_pages fetch parse_page time_sleep delay max_items max_pages pages (log, jobs)
       = Inr (log, jobs)"
  by (cases pages) simp_all

text \<open>One turn of the loop that goes on to the next page, with the log it leaves.\<close>

lemma scrape_pages_step:
  assumes "scrape_pages fetch parse_page time_sleep delay max_items max_pages (page # pages)
      (log, jobs) = Inr r"
    and "\<not> max_items \<le> int (length jobs)"
    and "fetch page = Inr html" and "html \<noteq> []"
  shows "\<exists>log2. scrape_pages fetch parse_page time_sleep delay max_items max_pages pages
      (log2, append_up_to max_items jobs (parse_page page html)) = Inr r"
proof (cases "page < max_pages
    \<and> int (length (append_up_to max_items jobs (parse_page page html))) < max_items")
  case True
  show ?thesis
  proof (cases "time_sleep delay")
    case None
    with True assms show ?thesis by (auto simp: Let_def)
  next
    case (Some e)
    with True assms show ?thesis by (simp add: Let_def)
  qed
next
  case False
  with assms show ?thesis by (auto simp: Let_def)
qed

lemma scrape_pages_length:
  "int (length jobs) \<le> max_items \<Longrightarrow>
     scrape_pages fetch parse_page time_sleep delay max_items max_pages pages (log, jobs)
       = Inr (log', jobs')
     \<Longrightarrow> int (length jobs') \<le> max_items"
proof (induction pages arbitrary: log jobs)
  case Nil
  then show ?case by simp
next
  case (Cons page pages)
  show ?case
  proof (cases "max_items \<le> int (length jobs)")
    case True
    with Cons.prems show ?thesis by simp
  next
    case False
    then have below: "int (length jobs) < max_items" by simp
    show ?thesis
    proof (cases "fetch page")
      case (Inl e)
      with False Cons.prems show ?thesis by simp
    next
      case (Inr html)
      show ?thesis
      proof (cases "html = []")
        case True
        with False Inr Cons.prems show ?thesis by simp
      next
        case nonempty: False
        let ?jobs = "append_up_to max_items jobs (parse_page page html)"
        have len: "int (length ?jobs) \<le> max_items"
          using below by (rule append_up_to_length)
        from scrape_pages_step [OF Cons.prems(2) False Inr nonempty] obtain log2 where
          "scrape_pages fetch parse_page time_sleep delay max_items max_pages pages
             (log2, ?jobs) = Inr (log', jobs')"
          by blast
        with len show ?thesis by (rule Cons.IH)
      qed
    qed
  qed
qed

lemma scrape_pages_returns:
  "\<forall>page \<in> set pages. \<exists>html. fetch page = Inr html \<Longrightarrow> time_sleep delay = None \<Longrightarrow>
     \<exists>r. scrape_pages fetch parse_page time_sleep delay max_items max_pages pages (log, jobs)
       = Inr r"
proof (induction pages arbitrary: log jobs)
  case Nil
  show ?case by simp
next
  case (Cons page pages)
  then obtain html where html: "fetch page = Inr html" by auto
  from Cons.prems have rest: "\<forall>page \<in> set pages. \<exists>html. fetch page = Inr html" by simp
  note ih = Cons.IH [OF rest Cons.prems(2)]
  show ?case
  proof (cases "max_items \<le> int (length jobs) \<or> html = []")
    case True
    with html show ?thesis by auto
  next
    case False
    with html Cons.prems(2) ih show ?thesis by (simp add: Let_def)
  qed
qed

text \<open>An exception of the pause leaves the function: it is the result of \<open>scrape\<close>.\<close>

lemma scrape_pages_pause_raises:
  assumes "\<not> max_items \<le> int (length jobs)" and "fetch page = Inr html" and "html \<noteq> []"
    and "page < max_pages"
    and "int (length (append_up_to max_items jobs (parse_page page html))) < max_items"
    and "time_sleep delay = Some e"
  shows "scrape_pages fetch parse_page time_sleep delay max_items max_pages (page # pages)
      (log, jobs) = Inl e"
  using assms by (simp add: Let_def)

lemma fetch_search_page_returns:
  "build_url_with str_format search_url_template page = Inr url \<Longrightarrow>
     \<exists>html. fetch_search_page str_format http_get search_url_template page = Inr html"
  by (simp add: fetch_search_page_def split: option.splits)

lemma scrape_pages_first_page_fills:
  assumes "1 \<le> max_pages" and "fetch 1 = Inr html" and "html \<noteq> []" and "0 < max_items"
    and "max_items \<le> int (length (parse_page 1 html))"
  shows "scrape_pages fetch parse_page time_sleep delay max_items max_pages [1..max_pages]
       ([], [])
     = Inr ([Fetched 1], take (nat max_items) (parse_page 1 html))"
proof -
  from assms(1) have pages: "[1..max_pages] = 1 # [2..max_pages]"
    by (simp add: upto_rec1)
  have app: "append_up_to max_items [] (parse_page 1 html)
      = take (nat max_items) (parse_page 1 html)"
    using assms(4) append_up_to_take [of "[]" max_items] by simp
  have full: "int (length (take (nat max_items) (parse_page 1 html))) = max_items"
    using assms(4,5) by simp
  then have stop: "scrape_pages fetch parse_page time_sleep delay max_items max_pages
      [2..max_pages] ([Fetched 1], take (nat max_items) (parse_page 1 html))
      = Inr ([Fetched 1], take (nat max_items) (parse_page 1 html))"
    by (intro scrape_pages_stop) simp
  show ?thesis
    unfolding pages using assms(2,3,4) full
    by (simp add: Let_def app stop)
qed

text \<open>
  Claim C4: for a cap \<open>max_items \<ge> 0\<close>, the list that \<open>scrape\<close> returns has at
  most \<open>max_items\<close> records, whatever \<open>str.format\<close>, the requests and the pause do;
  and \<open>scrape\<close> does return whenever the page URLs can be built and the pause does
  not raise. The cap is checked before each page: from a state that has reached the
  cap, the loop returns without building a URL, fetching or pausing. A page's
  records are appended only up to the remaining capacity. With \<open>max_items = 5\<close> and
  a first page that yields 10 records, the result is the first 5 of them and only
  page 1 is fetched, whatever \<open>max_pages \<ge> 1\<close> is.
\<close>

theorem scrape_cap:
  "(0 \<le> max_items
      \<and> scrape str_format http_get time_sleep template delay soup_select isoformat date_parse
          clock max_items max_pages = Inr (log', jobs')
      \<longrightarrow> int (length jobs') \<le> max_items)
   \<and> ((\<forall>page \<in> set [1..max_pages]. \<exists>url. build_url_with str_format template page = Inr url)
        \<and> time_sleep delay = None
      \<longrightarrow> (\<exists>r. scrape str_format http_get time_sleep template delay soup_select isoformat
                  date_parse clock max_items max_pages = Inr r))
   \<and> (max_items \<le> int (length jobs)
      \<longrightarrow> scrape_pages fetch parse_page time_sleep delay max_items max_pages pages (log, jobs)
            = Inr (log, jobs))
   \<and> (int (length jobs) < max_items
      \<longrightarrow> append_up_to max_items jobs page_jobs
            = jobs @ take (nat (max_items - int (length jobs))) page_jobs)
   \<and> (1 \<le> max_pages \<and> build_url_with str_format template 1 = Inr url
        \<and> http_get url = Some html \<and> html \<noteq> []
        \<and> length (snd (parse_jobs_from_html soup_select isoformat date_parse (clock 1) html))
            = 10
      \<longrightarrow> scrape str_format http_get time_sleep template delay soup_select isoformat
            date_parse clock 5 max_pages
            = Inr ([Fetched 1],
                   take 5 (snd (parse_jobs_from_html soup_select isoformat date_parse
                                  (clock 1) html))))"
proof (intro conjI impI)
  assume "0 \<le> max_items
      \<and> scrape str_format http_get time_sleep template delay soup_select isoformat date_parse
          clock max_items max_pages = Inr (log', jobs')"
  then show "int (length jobs') \<le> max_items"
    unfolding scrape_def using scrape_pages_length [of "[]" max_items] by auto
next
  assume h: "(\<forall>page \<in> set [1..max_pages]. \<exists>url. build_url_with str_format template page = Inr url)
        \<and> time_sleep delay = None"
  then have "\<forall>page \<in> set [1..max_pages].
      \<exists>html. fetch_search_page str_format http_get template page = Inr html"
    using fetch_search_page_returns by blast
  moreover from h have "time_sleep delay = None" by blast
  ultimately show "\<exists>r. scrape str_format http_get time_sleep template delay soup_select
      isoformat date_parse clock max_items max_pages = Inr r"
    unfolding scrape_def by (rule scrape_pages_returns)
next
  assume "max_items \<le> int (length jobs)"
  then show "scrape_pages fetch parse_page time_sleep delay max_items max_pages pages (log, jobs)
      = Inr (log, jobs)"
    by (rule scrape_pages_stop)
next
  assume "int (length jobs) < max_items"
  then show "append_up_to max_items jobs page_jobs
            = jobs @ take (nat (max_items - int (length jobs))) page_jobs"
    by (rule append_up_to_take)
next
  assume h: "1 \<le> max_pages \<and> build_url_with str_format template 1 = Inr url
        \<and> http_get url = Some html \<and> html \<noteq> []
        \<and> length (snd (parse_jobs_from_html soup_select isoformat date_parse (clock 1) html))
            = 10"
  let ?page = "snd (parse_jobs_from_html soup_select isoformat date_parse (clock 1) html)"
  from h have f: "fetch_search_page str_format http_get template 1 = Inr html"
    by (simp add: fetch_search_page_def)
  from h have "scrape_pages (fetch_search_page str_format http_get template)
       (\<lambda>page html. snd (parse_jobs_from_html soup_select isoformat date_parse (clock page) html))
       time_sleep delay 5 max_pages [1..max_pages] ([], [])
     = Inr ([Fetched 1], take (nat 5) ?page)"
    by (intro scrape_pages_first_page_fills f) simp_all
  then show "scrape str_format http_get time_sleep template delay soup_select isoformat
      date_parse clock 5 max_pages = Inr ([Fetched 1], take 5 ?page)"
    by (simp add: scrape_def)
qed

lemma parse_cards_replicate:
  "parse_cards iso_example no_date_parse clock_example i
     (replicate n (example_card ''Build a bot'' ''Posted 3 hours ago''))
   = replicate n example_job"
  by (induction n arbitrary: i) (simp_all add: clock_example_def example_card_record)

lemma build_url_example:
  "build_url_with format_page ''https://u/?page={page}'' 1 = Inr ''https://u/?page=1''"
proof -
  have "str_int 1 = ''1''" by (simp add: str_int_def nat_digits.simps digit_char_def)
  then show ?thesis by (simp add: build_url_with_def)
qed

lemma build_url_example_all:
  "\<exists>url. build_url_with format_page ''https://u/?page={page}'' page = Inr url"
proof -
  have "only_page_fields ''https://u/?page={page}''" by simp
  then have "format_page ''https://u/?page={page}'' page
      = Inr (subst_page (str_int page) ''https://u/?page={page}'')"
    by (rule format_page_only_fields)
  then show ?thesis by (simp add: build_url_with_def)
qed

theorem scrape_cap_witness:
  "length (snd (parse_jobs_from_html
      (example_soup (replicate 10 (example_card ''Build a bot'' ''Posted 3 hours ago'')))
      iso_example no_date_parse (page_clock_example 1) ''<html>'')) = 10
   \<and> scrape format_page http_example sleep_example ''https://u/?page={page}'' 2
        (example_soup (replicate 10 (example_card ''Build a bot'' ''Posted 3 hours ago'')))
        iso_example no_date_parse page_clock_example 5 3
      = Inr ([Fetched 1], replicate 5 example_job)
   \<and> int (length (replicate 5 example_job)) \<le> 5
   \<and> scrape_pages (fetch_search_page format_page http_example ''https://u/?page={page}'')
        one_job_page sleep_example 2 1 3 [2, 3] ([Fetched 1], [example_job])
      = Inr ([Fetched 1], [example_job])
   \<and> append_up_to 2 [example_job] [example_job, example_job, example_job]
      = [example_job, example_job]"
proof -
  let ?soup = "example_soup (replicate 10 (example_card ''Build a bot'' ''Posted 3 hours ago''))"
  let ?tpl = "''https://u/?page={page}''"
  let ?fetch = "fetch_search_page format_page http_example ?tpl"
  have clock: "page_clock_example 1 = clock_example"
    by (simp add: page_clock_example_def clock_example_def fun_eq_iff)
  have page: "snd (parse_jobs_from_html ?soup iso_example no_date_parse (page_clock_example 1)
      ''<html>'') = replicate 10 example_job"
    by (simp add: parse_jobs_from_html_def select_job_cards_def example_soup_def
        clock parse_cards_replicate)
  then have len: "length (snd (parse_jobs_from_html ?soup iso_example no_date_parse
      (page_clock_example 1) ''<html>'')) = 10"
    by simp
  have h: "(1::int) \<le> 3 \<and> build_url_with format_page ?tpl 1 = Inr ''https://u/?page=1''
      \<and> http_example ''https://u/?page=1'' = Some ''<html>'' \<and> ''<html>'' \<noteq> []"
    by (simp add: build_url_example http_example_def)
  have all: "(\<forall>page \<in> set [1..3]. \<exists>url. build_url_with format_page ?tpl page = Inr url)
      \<and> sleep_example 2 = None"
    using build_url_example_all by (simp add: sleep_example_def)
  note spec = scrape_cap [of 5 format_page http_example sleep_example ?tpl 2 ?soup iso_example
      no_date_parse page_clock_example 3 "[Fetched 1]" "replicate 5 example_job"]
  from scrape_cap [of 5 format_page http_example sleep_example ?tpl 2 ?soup iso_example
      no_date_parse page_clock_example 3 "[Fetched 1]" "replicate 5 example_job"
      "[example_job]" ?fetch one_job_page "[2, 3]" "[Fetched 1]" "[example_job]"
      "''https://u/?page=1''" "''<html>''"]
    h len
  have "scrape format_page http_example sleep_example ?tpl 2 ?soup iso_example no_date_parse
      page_clock_example 5 3
      = Inr ([Fetched 1], take 5 (snd (parse_jobs_from_html ?soup iso_example no_date_parse
           (page_clock_example 1) ''<html>'')))"
    by blast
  then have a: "scrape format_page http_example sleep_example ?tpl 2 ?soup iso_example
      no_date_parse page_clock_example 5 3 = Inr ([Fetched 1], replicate 5 example_job)"
    by (simp add: page)
  have "(0::int) \<le> 5" by simp
  with a conjunct1 [OF spec] have a': "int (length (replicate 5 example_job)) \<le> 5"
    by (elim impE) (rule conjI)
  from all conjunct1 [OF conjunct2 [OF spec]]
  have "\<exists>r. scrape format_page http_example sleep_example ?tpl 2 ?soup iso_example
      no_date_parse page_clock_example 5 3 = Inr r"
    by (rule rev_mp)
  have "(1::int) \<le> int (length [example_job])" by simp
  with scrape_cap [of 1 format_page http_example sleep_example ?tpl 2 ?soup iso_example
      no_date_parse page_clock_example 3 "[Fetched 1]" "replicate 5 example_job"
      "[example_job]" ?fetch one_job_page "[2, 3]" "[Fetched 1]"]
  have b: "scrape_pages ?fetch one_job_page sleep_example 2 1 3 [2, 3]
      ([Fetched 1], [example_job]) = Inr ([Fetched 1], [example_job])"
    by blast
  have "int (length [example_job]) < 2" by simp
  with scrape_cap [of 2 format_page http_example sleep_example ?tpl 2 ?soup iso_example
      no_date_parse page_clock_example 3 "[Fetched 1]" "replicate 5 example_job"
      "[example_job]" ?fetch one_job_page "[2, 3]" "[Fetched 1]"
      "[example_job, example_job, example_job]"]
  have "append_up_to 2 [example_job] [example_job, example_job, example_job]
      = [example_job] @ take (nat (2 - int (length [example_job])))
          [example_job, example_job, example_job]"
    by blast
  then have c: "append_up_to 2 [example_job] [example_job, example_job, example_job]
      = [example_job, example_job]"
    by simp
  from len a a' b c show ?thesis by blast
qed

section \<open>Column order of the tabular exports\<close>

lemma prefer_loop_filter:
  "distinct fs \<Longrightarrow>
     prefer_loop fs (ordered, S) = (ordered @ filter (\<lambda>f. f \<in> S) fs, S - set fs)"
proof (induction fs arbitrary: ordered S)
  case Nil
  show ?case by simp
next
  case (Cons f fs)
  then have nf: "f \<notin> set fs" and d: "distinct fs" by simp_all
  show ?case
  proof (cases "f \<in> S")
    case True
    from nf have "filter (\<lambda>g. g \<in> S - {f}) fs = filter (\<lambda>g. g \<in> S) fs"
      by (intro filter_cong) auto
    moreover have "S - {f} - set fs = S - set (f # fs)" by auto
    ultimately show ?thesis using True Cons.IH [OF d] by simp
  next
    case False
    then have "S - set fs = S - set (f # fs)" by auto
    with False Cons.IH [OF d] show ?thesis by simp
  qed
qed

lemma fold_keys:
  "fold (\<lambda>item field_set. field_set \<union> set (map fst item)) data S
     = S \<union> (\<Union>item \<in> set data. fst ` set item)"
  by (induction data arbitrary: S) auto

lemma all_keys_eq: "all_keys data = (\<Union>item \<in> set data. fst ` set item)"
  by (simp only: all_keys_def fold_keys) simp

lemma distinct_preferred_order: "distinct preferred_order"
  by (simp add: preferred_order_def)

lemma collect_fieldnames_eq:
  "collect_fieldnames data =
     filter (\<lambda>f. f \<in> all_keys data) preferred_order
     @ sorted_list_of_set (all_keys data - set preferred_order)"
  by (simp add: collect_fieldnames_def prefer_loop_filter [OF distinct_preferred_order])

lemma lower_csv: "lower ''csv'' = ''csv''" and lower_excel: "lower ''excel'' = ''excel''"
  and lower_json: "lower ''json'' = ''json''" and lower_xml: "lower ''xml'' = ''xml''"
  by (simp_all add: lower_def lower_char_def isupper_def)

lemma export_csv_header:
  assumes "data \<noteq> []"
  shows "\<exists>rows. snd (export output_dir fs data ''csv'' p) (PathJoin output_dir (p @ ''.csv''))
     = Some (CsvFile (collect_fieldnames data) rows)"
  using assms by (simp add: export_def lower_csv export_csv_def Let_def)

lemma export_excel_columns:
  assumes "data \<noteq> []"
  shows "\<exists>cells. snd (export output_dir fs data ''excel'' p) (PathJoin output_dir (p @ ''.xlsx''))
     = Some (ExcelFile (dedup_seen (\<lambda>k. k) {} (concat (map (map fst) data))) cells)"
proof -
  have "map (map fst) (map (map (\<lambda>(k, v). (k, scalar_or_join v))) data) = map (map fst) data"
    by (induction data) (auto simp: split_def)
  then have cols: "dataframe_columns (map (map (\<lambda>(k, v). (k, scalar_or_join v))) data)
      = dedup_seen (\<lambda>k. k) {} (concat (map (map fst) data))"
    by (simp only: dataframe_columns_def)
  from assms show ?thesis
    by (simp add: export_def lower_excel export_excel_def Let_def cols)
qed

lemma dedup_seen_append:
  "dedup_seen key S (xs @ ys) = dedup_seen key S xs @ dedup_seen key (S \<union> key ` set xs) ys"
  by (induction xs arbitrary: S) (simp_all add: insert_absorb)

lemma dedup_seen_fresh:
  "distinct (map key xs) \<Longrightarrow> key ` set xs \<inter> S = {} \<Longrightarrow> dedup_seen key S xs = xs"
  by (induction xs arbitrary: S) auto

lemma dedup_seen_stale: "key ` set xs \<subseteq> S \<Longrightarrow> dedup_seen key S xs = []"
  by (induction xs) auto

lemma job_items_keys: "map fst (job_items j) = preferred_order"
  by (simp add: job_items_def preferred_order_def)

lemma dedup_seen_job_keys:
  "dedup_seen (\<lambda>k. k) (set preferred_order) (concat (map (map fst) (map job_items jobs))) = []"
  by (rule dedup_seen_stale) (auto simp: job_items_keys)

lemma job_records_columns:
  assumes "jobs \<noteq> []"
  shows "dedup_seen (\<lambda>k. k) {} (concat (map (map fst) (map job_items jobs))) = preferred_order"
proof -
  from assms obtain j js where jobs: "jobs = j # js" by (cases jobs) auto
  have "dedup_seen (\<lambda>k. k) {} (preferred_order @ concat (map (map fst) (map job_items js)))
      = dedup_seen (\<lambda>k. k) {} preferred_order
        @ dedup_seen (\<lambda>k. k) (set preferred_order) (concat (map (map fst) (map job_items js)))"
    by (simp add: dedup_seen_append)
  also have "\<dots> = preferred_order"
  proof -
    have fresh: "dedup_seen (\<lambda>k. k) {} preferred_order = preferred_order"
      by (rule dedup_seen_fresh) (simp_all add: distinct_preferred_order)
    show ?thesis by (simp only: fresh dedup_seen_job_keys append_Nil2)
  qed
  finally show ?thesis by (simp add: jobs job_items_keys)
qed

lemma job_records_keys:
  assumes "jobs \<noteq> []"
  shows "all_keys (map job_items jobs) = set preferred_order"
proof -
  have "\<And>j. fst ` set (job_items j) = set preferred_order"
    using job_items_keys by (metis set_map)
  with assms show ?thesis by (auto simp: all_keys_eq)
qed

lemma job_records_fieldnames:
  "jobs \<noteq> [] \<Longrightarrow> collect_fieldnames (map job_items jobs) = preferred_order"
  by (simp add: collect_fieldnames_eq job_records_keys)

text \<open>
  Claim C8, as stated, at the single record with the keys \<open>description\<close>, \<open>title\<close>
  in this order: the Excel export keeps the record's own key order, while the
  preferred ordering (used for the CSV header) puts \<open>title\<close> first.
\<close>

theorem export_excel_own_key_order:
  "snd (export ''out'' Map.empty [[(''description'', PStr ''d''), (''title'', PStr ''t'')]]
          ''excel'' ''jobs'') (PathJoin ''out'' ''jobs.xlsx'')
     = Some (ExcelFile [''description'', ''title''] [[Some ''d'', Some ''t'']])
   \<and> snd (export ''out'' Map.empty [[(''description'', PStr ''d''), (''title'', PStr ''t'')]]
          ''csv'' ''jobs'') (PathJoin ''out'' ''jobs.csv'')
     = Some (CsvFile [''title'', ''description''] [[''t'', ''d'']])"
  by (simp add: export_def lower_csv lower_excel export_excel_def export_csv_def Let_def
      dataframe_columns_def collect_fieldnames_def all_keys_def preferred_order_def dict_get_def
      insert_Diff_if)

text \<open>
  Claim C8, amended: for every non-empty record list, the header of the CSV export
  is the preferred ordering restricted to the keys present, followed by the other
  keys sorted by code point; the columns of the Excel export are the keys of the
  records in order of first appearance. For records built by the record extractor
  both are the preferred ordering.
\<close>

theorem export_column_order:
  "(data \<noteq> [] \<longrightarrow>
      (\<exists>rows. snd (export output_dir fs data ''csv'' p) (PathJoin output_dir (p @ ''.csv''))
         = Some (CsvFile
             (filter (\<lambda>f. f \<in> (\<Union>item \<in> set data. fst ` set item)) preferred_order
              @ sorted_list_of_set ((\<Union>item \<in> set data. fst ` set item) - set preferred_order))
             rows))
    \<and> (\<exists>cells. snd (export output_dir fs data ''excel'' p) (PathJoin output_dir (p @ ''.xlsx''))
         = Some (ExcelFile (first_occurrences (\<lambda>k. k) (concat (map (map fst) data))) cells)))
   \<and> (jobs \<noteq> [] \<longrightarrow>
      (\<exists>rows. snd (export output_dir fs (map job_items jobs) ''csv'' p)
                 (PathJoin output_dir (p @ ''.csv''))
         = Some (CsvFile preferred_order rows))
    \<and> (\<exists>cells. snd (export output_dir fs (map job_items jobs) ''excel'' p)
                  (PathJoin output_dir (p @ ''.xlsx''))
         = Some (ExcelFile preferred_order cells)))"
proof (intro conjI impI)
  assume d: "data \<noteq> []"
  from export_csv_header [OF d, of output_dir fs p]
  show "\<exists>rows. snd (export output_dir fs data ''csv'' p) (PathJoin output_dir (p @ ''.csv''))
         = Some (CsvFile
             (filter (\<lambda>f. f \<in> (\<Union>item \<in> set data. fst ` set item)) preferred_order
              @ sorted_list_of_set ((\<Union>item \<in> set data. fst ` set item) - set preferred_order))
             rows)"
    by (simp only: collect_fieldnames_eq all_keys_eq)
next
  assume d: "data \<noteq> []"
  from export_excel_columns [OF d, of output_dir fs p]
  show "\<exists>cells. snd (export output_dir fs data ''excel'' p)
        (PathJoin output_dir (p @ ''.xlsx''))
         = Some (ExcelFile (first_occurrences (\<lambda>k. k) (concat (map (map fst) data))) cells)"
    by (simp only: first_occurrences_dedup)
next
  assume j: "jobs \<noteq> []"
  then have d: "map job_items jobs \<noteq> []" by simp
  from export_csv_header [OF d, of output_dir fs p]
  show "\<exists>rows. snd (export output_dir fs (map job_items jobs) ''csv'' p)
                 (PathJoin output_dir (p @ ''.csv''))
         = Some (CsvFile preferred_order rows)"
    by (simp only: job_records_fieldnames [OF j])
next
  assume j: "jobs \<noteq> []"
  then have d: "map job_items jobs \<noteq> []" by simp
  from export_excel_columns [OF d, of output_dir fs p]
  show "\<exists>cells. snd (export output_dir fs (map job_items jobs) ''excel'' p)
                  (PathJoin output_dir (p @ ''.xlsx''))
         = Some (ExcelFile preferred_order cells)"
    by (simp only: job_records_columns [OF j])
qed


theorem export_column_order_witness:
  "(\<exists>rows. snd (export ''out'' Map.empty
        [[(''zeta'', PNone), (''description'', PStr ''d''), (''title'', PStr ''t''),
          (''Alpha'', PInt 3)]] ''csv'' ''jobs'') (PathJoin ''out'' ''jobs.csv'')
      = Some (CsvFile [''title'', ''description'', ''Alpha'', ''zeta''] rows))
   \<and> (\<exists>cells. snd (export ''out'' Map.empty
        [[(''zeta'', PNone), (''description'', PStr ''d''), (''title'', PStr ''t''),
          (''Alpha'', PInt 3)]] ''excel'' ''jobs'') (PathJoin ''out'' ''jobs.xlsx'')
      = Some (ExcelFile [''zeta'', ''description'', ''title'', ''Alpha''] cells))
   \<and> (\<exists>rows. snd (export ''out'' Map.empty (map job_items [example_job]) ''csv'' ''jobs'')
        (PathJoin ''out'' ''jobs.csv'') = Some (CsvFile preferred_order rows))
   \<and> (\<exists>cells. snd (export ''out'' Map.empty (map job_items [example_job]) ''excel'' ''jobs'')
        (PathJoin ''out'' ''jobs.xlsx'') = Some (ExcelFile preferred_order cells))"
proof -
  let ?data = "[[(''zeta'', PNone), (''description'', PStr ''d''), (''title'', PStr ''t''),
          (''Alpha'', PInt 3)]]"
  have keys: "(\<Union>item \<in> set ?data. fst ` set item) = {''zeta'', ''description'', ''title'', ''Alpha''}"
    by simp
  have rest: "{''zeta'', ''description'', ''title'', ''Alpha''} - set preferred_order
      = {''zeta'', ''Alpha''}"
    by (simp add: preferred_order_def insert_Diff_if)
  have header: "filter (\<lambda>f. f \<in> (\<Union>item \<in> set ?data. fst ` set item)) preferred_order
      @ sorted_list_of_set ((\<Union>item \<in> set ?data. fst ` set item) - set preferred_order)
      = [''title'', ''description'', ''Alpha'', ''zeta'']"
    unfolding keys rest by (simp add: preferred_order_def)
  have columns: "first_occurrences (\<lambda>k. k) (concat (map (map fst) ?data))
      = [''zeta'', ''description'', ''title'', ''Alpha'']"
    by (simp add: first_occurrences_dedup)
  have d: "?data \<noteq> []" and j: "[example_job] \<noteq> []" by simp_all
  note spec = export_column_order [of ?data "''out''" Map.empty "''jobs''" "[example_job]"]
  from spec d have
    "\<exists>rows. snd (export ''out'' Map.empty ?data ''csv'' ''jobs'') (PathJoin ''out'' (''jobs'' @ ''.csv''))
      = Some (CsvFile
          (filter (\<lambda>f. f \<in> (\<Union>item \<in> set ?data. fst ` set item)) preferred_order
           @ sorted_list_of_set ((\<Union>item \<in> set ?data. fst ` set item) - set preferred_order))
          rows)"
    by blast
  then have a: "\<exists>rows. snd (export ''out'' Map.empty ?data ''csv'' ''jobs'')
      (PathJoin ''out'' ''jobs.csv'')
      = Some (CsvFile [''title'', ''description'', ''Alpha'', ''zeta''] rows)"
    unfolding header by simp
  from spec d have
    "\<exists>cells. snd (export ''out'' Map.empty ?data ''excel'' ''jobs'')
        (PathJoin ''out'' (''jobs'' @ ''.xlsx''))
      = Some (ExcelFile (first_occurrences (\<lambda>k. k) (concat (map (map fst) ?data))) cells)"
    by blast
  then have b: "\<exists>cells. snd (export ''out'' Map.empty ?data ''excel'' ''jobs'')
      (PathJoin ''out'' ''jobs.xlsx'')
      = Some (ExcelFile [''zeta'', ''description'', ''title'', ''Alpha''] cells)"
    unfolding columns by simp
  from spec j have
    "(\<exists>rows. snd (export ''out'' Map.empty (map job_items [example_job]) ''csv'' ''jobs'')
        (PathJoin ''out'' (''jobs'' @ ''.csv'')) = Some (CsvFile preferred_order rows))
     \<and> (\<exists>cells. snd (export ''out'' Map.empty (map job_items [example_job]) ''excel'' ''jobs'')
        (PathJoin ''out'' (''jobs'' @ ''.xlsx'')) = Some (ExcelFile preferred_order cells))"
    by blast
  then have c: "(\<exists>rows. snd (export ''out'' Map.empty (map job_items [example_job]) ''csv'' ''jobs'')
        (PathJoin ''out'' ''jobs.csv'') = Some (CsvFile preferred_order rows))
     \<and> (\<exists>cells. snd (export ''out'' Map.empty (map job_items [example_job]) ''excel'' ''jobs'')
        (PathJoin ''out'' ''jobs.xlsx'') = Some (ExcelFile preferred_order cells))"
    by simp
  from a b c show ?thesis by blast
qed

section \<open>Errors of \<open>export\<close>\<close>








end
